theory Spec2Isabelle
  imports Main "HOL-Library.Multiset" "HOL-Library.Char_ord" "HOL-Library.List_Lexorder"
begin

section \<open>The round engine (src/app/\_hooks/use-game-logic.ts)\<close>

subsection \<open>Data\<close>

text \<open>
  JavaScript objects have an identity, and \<^verbatim>\<open>Array.prototype.includes\<close> compares objects
  by that identity. The engine never mutates an object in place: every change builds a new
  object with a spread (\<^verbatim>\<open>{...item, selected: ...}\<close>). An object is therefore modelled as
  an immutable record that carries its own reference (\<open>cref\<close>, \<open>wref\<close>), and building
  an object takes the next unused reference from the counter \<open>nextRef\<close> of the state.

  \<^verbatim>\<open>Category = { category: string, level: 1|2|3|4, items: string[] }\<close>,
  \<^verbatim>\<open>Word = { word: string, level: 1|2|3|4, selected?: boolean }\<close>; the field \<open>selected\<close>
  is absent (\<open>None\<close>, undefined in JavaScript) on the words built when a puzzle loads.
\<close>

record Category =
  cref :: nat
  category :: string
  level :: int
  items :: "string list"

record Word =
  wref :: nat
  word :: string
  level :: int
  selected :: "bool option"

datatype SubmitResult = Same | Correct | Incorrect | OneAway | Win | Loss

text \<open>
  The state of the hook: the four \<^verbatim>\<open>useState\<close> cells, \<^verbatim>\<open>guessHistoryRef.current\<close>
  and the allocation counter of the model.
\<close>

record GameState =
  gameWords :: "Word list"
  clearedCategories :: "Category list"
  isWon :: bool
  isLost :: bool
  mistakesRemaining :: int
  guessHistory :: "Word list list"
  nextRef :: nat

text \<open>The values of the \<^verbatim>\<open>useState\<close> and \<^verbatim>\<open>useRef\<close> calls at the first render.\<close>

definition initialState :: GameState where
  "initialState =
     \<lparr>gameWords = [], clearedCategories = [], isWon = False, isLost = False,
      mistakesRemaining = 4, guessHistory = [], nextRef = 0\<rparr>"

subsection \<open>JavaScript helpers\<close>

text \<open>Truthiness of the optional boolean \<open>selected\<close>: undefined and false are falsy.\<close>

fun truthy :: "bool option \<Rightarrow> bool" where
  "truthy None = False"
| "truthy (Some b) = b"

text \<open>\<^verbatim>\<open>xs.includes(x)\<close> on arrays of objects: equality of references.\<close>

definition includesWord :: "Word list \<Rightarrow> Word \<Rightarrow> bool" where
  "includesWord xs x = (wref x \<in> set (map wref xs))"

definition includesCategory :: "Category list \<Rightarrow> Category \<Rightarrow> bool" where
  "includesCategory xs x = (cref x \<in> set (map cref xs))"

text \<open>
  \<^verbatim>\<open>Math.max(...xs)\<close> on an array of lengths; \<open>None\<close> is \<^verbatim>\<open>-Infinity\<close>, its value on
  the empty array.
\<close>

fun Math_max :: "nat list \<Rightarrow> nat option" where
  "Math_max [] = None"
| "Math_max (x # xs) = Some (fold max xs x)"

text \<open>\<^verbatim>\<open>xs.indexOf(v)\<close>: the first index holding \<open>v\<close>, or \<open>-1\<close>.\<close>

fun indexOf :: "'a list \<Rightarrow> 'a \<Rightarrow> int" where
  "indexOf [] v = - 1"
| "indexOf (x # xs) v =
     (if x = v then 0 else (let i = indexOf xs v in if i < 0 then - 1 else i + 1))"

text \<open>
  \<^verbatim>\<open>xs.map(cb)\<close> where the callback either returns its argument (\<open>None\<close>) or builds a new
  object (\<open>Some\<close> of its fields); each new object takes the next reference.
\<close>

fun mapAlloc :: "(Word \<Rightarrow> Word option) \<Rightarrow> nat \<Rightarrow> Word list \<Rightarrow> Word list \<times> nat" where
  "mapAlloc cb n [] = ([], n)"
| "mapAlloc cb n (item # rest) =
     (case cb item of
        None \<Rightarrow> (let (rest', n') = mapAlloc cb n rest in (item # rest', n'))
      | Some obj \<Rightarrow>
          (let (rest', n') = mapAlloc cb (Suc n) rest in (obj\<lparr>wref := n\<rparr> # rest', n')))"

subsection \<open>Operations\<close>

text \<open>\<^verbatim>\<open>selectedWords = gameWords.filter((item) => item.selected)\<close>\<close>

definition selectedWords :: "GameState \<Rightarrow> Word list" where
  "selectedWords s = filter (\<lambda>item. truthy (selected item)) (gameWords s)"

text \<open>
  The words built by the effect that runs when the puzzle changes:
  \<^verbatim>\<open>puzzleCategories.map((category) => category.items.map((word) =>
      ({ word: word, level: category.level }))).flat()\<close>
\<close>

definition puzzleWords :: "Category list \<Rightarrow> nat \<Rightarrow> Word list" where
  "puzzleWords cats n =
     map (\<lambda>(i, (w, l)). \<lparr>wref = n + i, word = w, level = l, selected = None\<rparr>)
       (enumerate 0 (concat (map (\<lambda>c. map (\<lambda>w. (w, Category.level c)) (items c)) cats)))"

text \<open>
  The effect itself. \<^verbatim>\<open>shuffleArray\<close> lives in \<^verbatim>\<open>_utils\<close>, outside the sources at hand:
  it is the parameter \<open>shuffleArray\<close>.
\<close>

definition initialize ::
  "(Word list \<Rightarrow> Word list) \<Rightarrow> Category list option \<Rightarrow> GameState \<Rightarrow> GameState" where
  "initialize shuffleArray puzzleCategories s =
     (case puzzleCategories of
        None \<Rightarrow> s
      | Some cats \<Rightarrow>
          if length cats = 0 then s
          else
            \<lparr>gameWords = shuffleArray (puzzleWords cats (nextRef s)),
             clearedCategories = [], isWon = False, isLost = False,
             mistakesRemaining = 4, guessHistory = [],
             nextRef = nextRef s + length (puzzleWords cats (nextRef s))\<rparr>)"

definition selectWord :: "Word \<Rightarrow> GameState \<Rightarrow> GameState" where
  "selectWord w s =
     (let (newGameWords, n) =
        mapAlloc
          (\<lambda>item.
             if word w = word item then
               Some (item\<lparr>selected :=
                 Some (if length (selectedWords s) < 4 then \<not> truthy (selected item) else False)\<rparr>)
             else None)
          (nextRef s) (gameWords s)
      in s\<lparr>gameWords := newGameWords, nextRef := n\<rparr>)"

definition shuffleWords :: "(Word list \<Rightarrow> Word list) \<Rightarrow> GameState \<Rightarrow> GameState" where
  "shuffleWords shuffleArray s = s\<lparr>gameWords := shuffleArray (gameWords s)\<rparr>"

definition deselectAllWords :: "GameState \<Rightarrow> GameState" where
  "deselectAllWords s =
     (let (newGameWords, n) =
        mapAlloc (\<lambda>item. Some (item\<lparr>selected := Some False\<rparr>)) (nextRef s) (gameWords s)
      in s\<lparr>gameWords := newGameWords, nextRef := n\<rparr>)"

definition getCorrectResult :: "Category \<Rightarrow> GameState \<Rightarrow> SubmitResult \<times> GameState" where
  "getCorrectResult c s =
     (if length (clearedCategories s) = 3 then Win else Correct,
      s\<lparr>clearedCategories := clearedCategories s @ [c],
        gameWords := filter (\<lambda>item. word item \<notin> set (items c)) (gameWords s)\<rparr>)"

definition getIncorrectResult :: "nat option \<Rightarrow> GameState \<Rightarrow> SubmitResult \<times> GameState" where
  "getIncorrectResult maxLikeness s =
     (if mistakesRemaining s = 1 then Loss
      else if maxLikeness = Some 3 then OneAway
      else Incorrect,
      s\<lparr>mistakesRemaining := mistakesRemaining s - 1\<rparr>)"

text \<open>
  \<^verbatim>\<open>guessHistoryRef.current.some((guess) =>
      guess.every((word) => selectedWords.includes(word)))\<close>
\<close>

definition sameGuess :: "GameState \<Rightarrow> bool" where
  "sameGuess s =
     list_ex (\<lambda>guess. list_all (\<lambda>w. includesWord (selectedWords s) w) guess) (guessHistory s)"

definition likenessCounts :: "Category list \<Rightarrow> GameState \<Rightarrow> nat list" where
  "likenessCounts cats s =
     map (\<lambda>c. length (filter (\<lambda>item. word item \<in> set (items c)) (selectedWords s))) cats"

text \<open>
  \<open>getSubmitResult\<close>. The access \<^verbatim>\<open>puzzleCategories[maxIndex]\<close> is evaluated only when
  the maximum is 4, where the index is in range (lemma \<open>maxIndex_in_range\<close> below).
\<close>

definition getSubmitResult :: "Category list option \<Rightarrow> GameState \<Rightarrow> SubmitResult \<times> GameState" where
  "getSubmitResult puzzleCategories s =
     (case puzzleCategories of
        None \<Rightarrow> (Incorrect, s)
      | Some cats \<Rightarrow>
          if sameGuess s then (Same, s)
          else
            (let s1 = s\<lparr>guessHistory := guessHistory s @ [selectedWords s]\<rparr>;
                 maxLikeness = Math_max (likenessCounts cats s);
                 maxIndex = indexOf (map Some (likenessCounts cats s)) maxLikeness
             in if maxLikeness = Some 4 then getCorrectResult (cats ! nat maxIndex) s1
                else getIncorrectResult maxLikeness s1))"

text \<open>One pass of the loop of \<open>handleLoss\<close>: the two functional state updates.\<close>

definition revealCategory :: "Category \<Rightarrow> GameState \<Rightarrow> GameState" where
  "revealCategory c s =
     s\<lparr>clearedCategories := clearedCategories s @ [c],
       gameWords := filter (\<lambda>item. word item \<notin> set (items c)) (gameWords s)\<rparr>"

text \<open>
  \<open>handleLoss\<close> with its delays left out: the order of its state updates is what is
  modelled, not their timing.
\<close>

definition remainingCategories :: "Category list \<Rightarrow> GameState \<Rightarrow> Category list" where
  "remainingCategories cats s =
     filter (\<lambda>category. \<not> includesCategory (clearedCategories s) category) cats"

definition handleLoss :: "Category list option \<Rightarrow> GameState \<Rightarrow> GameState" where
  "handleLoss puzzleCategories s =
     (case puzzleCategories of
        None \<Rightarrow> s
      | Some cats \<Rightarrow>
          (let remaining = remainingCategories cats s;
               s1 = deselectAllWords s;
               s2 = fold revealCategory remaining s1
           in s2\<lparr>isLost := True\<rparr>))"

definition handleWin :: "GameState \<Rightarrow> GameState" where
  "handleWin s = s\<lparr>isWon := True\<rparr>"


subsection \<open>The page (src/app/page.tsx)\<close>

text \<open>
  \<^verbatim>\<open>controlsDisabled = loadingPuzzle || !!puzzleError || !puzzleCategories ||
      puzzleCategories.length !== 4\<close>; the error is a string or null, and the empty string
  is falsy.
\<close>

definition controlsDisabled :: "bool \<Rightarrow> string option \<Rightarrow> Category list option \<Rightarrow> bool" where
  "controlsDisabled loadingPuzzle puzzleError puzzleCategories =
     (loadingPuzzle \<or>
      (case puzzleError of None \<Rightarrow> False | Some e \<Rightarrow> e \<noteq> []) \<or>
      (case puzzleCategories of None \<Rightarrow> True | Some cats \<Rightarrow> length cats \<noteq> 4))"

definition onClickCell ::
  "bool \<Rightarrow> string option \<Rightarrow> Category list option \<Rightarrow> Word \<Rightarrow> GameState \<Rightarrow> GameState" where
  "onClickCell loadingPuzzle puzzleError puzzleCategories w s =
     (if controlsDisabled loadingPuzzle puzzleError puzzleCategories then s
      else selectWord w s)"

text \<open>
  \<open>handleSubmit\<close>, reduced to what it does to the engine: the popups, the animations and
  the modal flags of the page are left out.
\<close>

definition handleSubmit ::
  "bool \<Rightarrow> string option \<Rightarrow> Category list option \<Rightarrow> GameState \<Rightarrow> GameState" where
  "handleSubmit loadingPuzzle puzzleError puzzleCategories s =
     (if controlsDisabled loadingPuzzle puzzleError puzzleCategories then s
      else
        (case getSubmitResult puzzleCategories s of
           (Loss, s') \<Rightarrow> handleLoss puzzleCategories s'
         | (Win, s') \<Rightarrow> handleWin s'
         | (_, s') \<Rightarrow> s'))"

subsection \<open>Rounds\<close>

text \<open>
  What the puzzle route checks before it answers with a puzzle (current handler of
  src/app/api/puzzle/route.ts, lemma \<open>GET_validPuzzle\<close> below): four categories sorted
  by level, one per level 1 to 4, four items each, sixteen different words. The categories
  of a parsed response are different objects.
\<close>

definition validPuzzle :: "Category list \<Rightarrow> bool" where
  "validPuzzle cats =
     (length cats = 4 \<and>
      distinct (map cref cats) \<and>
      list_all (\<lambda>c. length (items c) = 4 \<and> Category.level c \<in> {1, 2, 3, 4}) cats \<and>
      sorted (map Category.level cats) \<and>
      distinct (map Category.level cats) \<and>
      distinct (concat (map items cats)))"

text \<open>
  The states of a round on the puzzle \<open>cats\<close>: the effect has run on the puzzle, then
  the page calls the engine. \<^verbatim>\<open>shuffleArray\<close> is any function that permutes the array
  it is given.

  \<open>handleSubmit\<close>, \<open>handleLoss\<close> and \<open>handleWin\<close> are asynchronous: they wait
  (\<^verbatim>\<open>await animateGuess\<close>, \<^verbatim>\<open>await delay(1000)\<close>) between their state updates, and
  while they wait a click on a tile still reaches \<open>selectWord\<close>: \<open>onClickCell\<close> tests
  \<open>controlsDisabled\<close> only, whereas Shuffle, Deselect All and Submit are moreover
  unclickable while \<^verbatim>\<open>submitted\<close> is set. The single updates of a submission are
  therefore steps of their own, between which clicks may fall: the call of
  \<open>getSubmitResult\<close> (\<open>r_result\<close>), the call of \<open>deselectAllWords\<close> that opens
  \<open>handleLoss\<close> (\<open>r_deselect\<close>), each pass of its loop on a category that is not
  cleared yet (\<open>r_reveal\<close>), its last update (\<open>r_lost\<close>) and the update of
  \<open>handleWin\<close> (\<open>r_won\<close>). These steps may be taken in any state, so the relation
  holds of every state that the page can bring about and of more. A submission into which
  nothing falls is the step \<open>r_submit\<close>.

  A round is a round on one puzzle: \<open>r_init\<close> starts from any state of the hook, so a
  change of puzzle starts a round; a change of puzzle while a submission of the round
  before is still waiting is not part of the relation.
\<close>

inductive reachable :: "Category list \<Rightarrow> GameState \<Rightarrow> bool" for cats :: "Category list" where
  r_init:
    "cats \<noteq> [] \<Longrightarrow> mset (sh (puzzleWords cats (nextRef s0))) = mset (puzzleWords cats (nextRef s0))
      \<Longrightarrow> reachable cats (initialize sh (Some cats) s0)"
| r_select:
    "reachable cats s \<Longrightarrow> reachable cats (onClickCell l e (Some cats) w s)"
| r_shuffle:
    "reachable cats s \<Longrightarrow> mset (sh (gameWords s)) = mset (gameWords s)
      \<Longrightarrow> reachable cats (shuffleWords sh s)"
| r_deselect:
    "reachable cats s \<Longrightarrow> reachable cats (deselectAllWords s)"
| r_submit:
    "reachable cats s \<Longrightarrow> reachable cats (handleSubmit l e (Some cats) s)"
| r_result:
    "reachable cats s \<Longrightarrow> reachable cats (snd (getSubmitResult (Some cats) s))"
| r_reveal:
    "reachable cats s \<Longrightarrow> c \<in> set (remainingCategories cats s)
      \<Longrightarrow> reachable cats (revealCategory c s)"
| r_lost:
    "reachable cats s \<Longrightarrow> reachable cats (s\<lparr>isLost := True\<rparr>)"
| r_won:
    "reachable cats s \<Longrightarrow> reachable cats (handleWin s)"

subsection \<open>A concrete round\<close>

definition examplePuzzle :: "Category list" where
  "examplePuzzle =
     [\<lparr>cref = 0, category = ''FRUIT'', level = 1, items = [''APPLE'', ''PEAR'', ''PLUM'', ''KIWI'']\<rparr>,
      \<lparr>cref = 1, category = ''COLOR'', level = 2, items = [''RED'', ''BLUE'', ''GREEN'', ''GOLD'']\<rparr>,
      \<lparr>cref = 2, category = ''METAL'', level = 3, items = [''IRON'', ''ZINC'', ''TIN'', ''LEAD'']\<rparr>,
      \<lparr>cref = 3, category = ''TOOL'', level = 4, items = [''SAW'', ''AXE'', ''HAMMER'', ''DRILL'']\<rparr>]"

text \<open>A click on the tile that shows \<open>w\<close>: \<open>selectWord\<close> reads only the text of its argument.\<close>

definition tile :: "string \<Rightarrow> Word" where
  "tile w = \<lparr>wref = 0, word = w, level = 0, selected = None\<rparr>"

definition click :: "string \<Rightarrow> GameState \<Rightarrow> GameState" where
  "click w s = onClickCell False None (Some examplePuzzle) (tile w) s"

definition submit :: "GameState \<Rightarrow> GameState" where
  "submit s = handleSubmit False None (Some examplePuzzle) s"

text \<open>The round starts unshuffled, with the four category objects at references 0 to 3.\<close>

definition round0 :: GameState where
  "round0 = initialize (\<lambda>xs. xs) (Some examplePuzzle) (initialState\<lparr>nextRef := 4\<rparr>)"

text \<open>Three fruits and a colour are selected.\<close>

definition round1 :: GameState where
  "round1 = click ''RED'' (click ''PLUM'' (click ''PEAR'' (click ''APPLE'' round0)))"

text \<open>
  Three more guesses that swap the colour, each one away: the round is at its last
  mistake, with three fruits and GOLD selected.
\<close>

definition round2 :: GameState where
  "round2 = click ''BLUE'' (click ''RED'' (submit round1))"

definition round3 :: GameState where
  "round3 = click ''GREEN'' (click ''BLUE'' (submit round2))"

definition round4 :: GameState where
  "round4 = click ''GOLD'' (click ''GREEN'' (submit round3))"

text \<open>The engine state right after the fourth wrong guess, before \<open>handleLoss\<close> runs.\<close>

definition roundLost :: GameState where
  "roundLost = snd (getSubmitResult (Some examplePuzzle) round4)"

text \<open>
  The first state a click can meet after that guess: \<open>handleLoss\<close> has deselected all
  words and waits before its first reveal.
\<close>

definition roundReveal :: GameState where
  "roundReveal = deselectAllWords roundLost"


text \<open>
  After the first wrong guess of the concrete round, RED is clicked twice: it is deselected
  and selected again, and the selection shows the same four words as the guess before.
\<close>

definition roundAgain :: GameState where
  "roundAgain = click ''RED'' (click ''RED'' (submit round1))"

text \<open>
  The engine is called in the fresh round with nothing selected: the empty guess is
  recorded. Then four words are selected, three fruits and RED in \<open>roundEmptyMiss\<close>, the
  four fruits in \<open>roundEmptyHit\<close>.
\<close>

definition roundEmpty :: GameState where
  "roundEmpty = snd (getSubmitResult (Some examplePuzzle) round0)"

definition roundEmptyMiss :: GameState where
  "roundEmptyMiss = click ''RED'' (click ''PLUM'' (click ''PEAR'' (click ''APPLE'' roundEmpty)))"

definition roundEmptyHit :: GameState where
  "roundEmptyHit = click ''KIWI'' (click ''PLUM'' (click ''PEAR'' (click ''APPLE'' roundEmpty)))"

text \<open>
  A second round on the same puzzle that is played without a mistake: \<open>pick1\<close> to
  \<open>pick4\<close> are the states in which the four words of a category are selected, before
  the guess is submitted.
\<close>

definition pick1 :: GameState where
  "pick1 = click ''KIWI'' (click ''PLUM'' (click ''PEAR'' (click ''APPLE'' round0)))"

definition pick2 :: GameState where
  "pick2 = click ''GOLD'' (click ''GREEN'' (click ''BLUE'' (click ''RED'' (submit pick1))))"

definition pick3 :: GameState where
  "pick3 = click ''LEAD'' (click ''TIN'' (click ''ZINC'' (click ''IRON'' (submit pick2))))"

definition pick4 :: GameState where
  "pick4 = click ''DRILL'' (click ''HAMMER'' (click ''AXE'' (click ''SAW'' (submit pick3))))"

subsection \<open>What holds in every state of a round\<close>

text \<open>What a tile shows: its text, its level and whether it is selected.\<close>

definition shown :: "Word \<Rightarrow> string \<times> int \<times> bool" where
  "shown item = (word item, Word.level item, truthy (selected item))"

text \<open>
  The board holds each word of the categories not yet cleared once and no other word; the
  cleared categories are categories of the puzzle, each once; at most four words are
  selected.
\<close>

definition roundInv :: "Category list \<Rightarrow> GameState \<Rightarrow> bool" where
  "roundInv cats s =
     (distinct (map word (gameWords s)) \<and>
      set (map word (gameWords s)) = set (concat (map items (remainingCategories cats s))) \<and>
      set (clearedCategories s) \<subseteq> set cats \<and>
      distinct (map cref (clearedCategories s)) \<and>
      length (remainingCategories cats s) + length (clearedCategories s) = length cats \<and>
      length (selectedWords s) \<le> 4)"

text \<open>
  Objects and references: the objects of the board have different references, all below
  the counter; the objects of a guess of the history have different references, all below
  the counter, and an object of the board with the reference of one of them is that object.
\<close>

definition heapOk :: "Word list \<Rightarrow> Word list list \<Rightarrow> nat \<Rightarrow> bool" where
  "heapOk ws h n =
     (distinct (map wref ws) \<and>
      (\<forall>x\<in>set ws. wref x < n) \<and>
      (\<forall>g\<in>set h. distinct (map wref g) \<and>
         (\<forall>x\<in>set g. wref x < n \<and> (\<forall>y\<in>set ws. wref y = wref x \<longrightarrow> y = x))))"

definition heapInv :: "GameState \<Rightarrow> bool" where
  "heapInv s = heapOk (gameWords s) (guessHistory s) (nextRef s)"

text \<open>The object that \<open>selectWord\<close> builds in place of the clicked tile.\<close>

definition toggled :: "GameState \<Rightarrow> Word \<Rightarrow> Word" where
  "toggled s item =
     item\<lparr>selected := Some (if length (selectedWords s) < 4 then \<not> truthy (selected item) else False),
          wref := nextRef s\<rparr>"

subsection \<open>Repeated guesses in the words of the specification\<close>

text \<open>
  These two definitions follow the specification, not the code. A guess is a repeat when
  its set of words equals the set of words of a guess of the history (``set equality of
  word identity, independent of selection order''); the code's own test is \<open>sameGuess\<close>
  above. And a guess is submitted only when four words are selected (the precondition of
  SubmitGuess), so that every guess of the history has four words.
\<close>

definition repeatedGuess :: "GameState \<Rightarrow> bool" where
  "repeatedGuess s =
     list_ex (\<lambda>guess. set (map word guess) = set (map word (selectedWords s))) (guessHistory s)"

definition fourWordHistory :: "GameState \<Rightarrow> bool" where
  "fourWordHistory s = list_all (\<lambda>guess. length guess = 4) (guessHistory s)"

section \<open>The puzzle route (src/app/api/puzzle/route.ts)\<close>

text \<open>
  The file holds two handlers \<^verbatim>\<open>GET\<close>, an earlier one (lines 35 to 104, \<open>GET1\<close> below)
  and the current one (lines 157 to 354, \<open>GET\<close>). A handler is modelled as a function of
  what it reads: the environment, the clock, the query and the sheet.

  Strings are lists of code units below 256; \<open><\<close> on them is the lexicographic order by code
  unit, as JavaScript compares strings. The built-ins \<^verbatim>\<open>trim\<close>, \<^verbatim>\<open>toLowerCase\<close>,
  \<^verbatim>\<open>toUpperCase\<close> and \<^verbatim>\<open>Number\<close> are parameters of the model; \<open>Number\<close> gives \<open>None\<close>
  for every result that is not an integer.
\<close>

record Builtins =
  trim :: "string \<Rightarrow> string"
  toLowerCase :: "string \<Rightarrow> string"
  toUpperCase :: "string \<Rightarrow> string"
  Number :: "string \<Rightarrow> int option"

text \<open>
  \<open>sheetsId\<close> is \<^verbatim>\<open>process.env.GOOGLE_SHEETS_ID\<close>, \<open>todayNz\<close> the value of
  \<^verbatim>\<open>todayInNzISO()\<close>, \<open>dateQuery\<close> the value of \<^verbatim>\<open>url.searchParams.get("date")\<close>,
  \<open>credsError\<close> the message of the error that \<^verbatim>\<open>getServiceAccountCreds\<close> throws, if it
  throws, and \<open>sheet\<close> either the message of the error thrown by the call to the Sheets API
  or \<^verbatim>\<open>res.data.values\<close>, a table of strings that may be undefined.
\<close>

record Request =
  sheetsId :: "string option"
  todayNz :: string
  dateQuery :: "string option"
  credsError :: "string option"
  sheet :: "string + string list list option"

datatype RouteError =
    MissingSheetId
  | InvalidDateFormat
  | NotAvailableYet
  | InvalidOrFutureDate
  | Thrown string
  | SheetEmpty
  | MissingColumns "string list"
  | PuzzleIncomplete string
  | LevelsNotUnique string
  | WordsNotUnique string

text \<open>
  A response is an error with its status, and with \<^verbatim>\<open>todayNz\<close> and \<^verbatim>\<open>availableDates\<close>
  where the body carries them, or the body \<^verbatim>\<open>{ date, todayNz, availableDates, categories }\<close>.
\<close>

datatype Response =
    Failure nat RouteError "(string \<times> string list) option"
  | Puzzle string string "string list" "Category list"

text \<open>\<^verbatim>\<open>/^\d{4}-\d{2}-\d{2}$/.test(s)\<close>\<close>

definition isDigit :: "char \<Rightarrow> bool" where
  "isDigit c = (c \<in> set ''0123456789'')"

definition isIsoDate :: "string \<Rightarrow> bool" where
  "isIsoDate s =
     (length s = 10 \<and> list_all isDigit (take 4 s) \<and> s ! 4 = CHR ''-'' \<and>
      list_all isDigit (take 2 (drop 5 s)) \<and> s ! 7 = CHR ''-'' \<and> list_all isDigit (drop 8 s))"

text \<open>\<^verbatim>\<open>String(row[i] ?? "")\<close>: a cell that the row does not have reads as the empty string.\<close>

definition cell :: "string list \<Rightarrow> int \<Rightarrow> string" where
  "cell row i = (if 0 \<le> i \<and> nat i < length row then row ! nat i else [])"

definition normalizeWord :: "Builtins \<Rightarrow> string \<Rightarrow> string" where
  "normalizeWord js w = toUpperCase js (trim js w)"

text \<open>
  A \<^verbatim>\<open>Map\<close> with string keys, in insertion order: \<^verbatim>\<open>get\<close> is \<open>map_of\<close>, and \<^verbatim>\<open>set\<close>
  replaces the value of a key that is present and appends a new key at the end.
\<close>

fun mapSet :: "string \<Rightarrow> 'v \<Rightarrow> (string \<times> 'v) list \<Rightarrow> (string \<times> 'v) list" where
  "mapSet k v [] = [(k, v)]"
| "mapSet k v (p # ps) = (if fst p = k then (k, v) # ps else p # mapSet k v ps)"

text \<open>
  The body of the loop over the rows below the header. The row comes with its number in
  the sheet, which is the reference of the category object built from it.
\<close>

definition addRow ::
  "Builtins \<Rightarrow> string \<Rightarrow> string list \<Rightarrow> nat \<times> string list \<Rightarrow>
   (string \<times> Category list) list \<Rightarrow> (string \<times> Category list) list" where
  "addRow js today header nrow puzzlesByDate =
     (let row = snd nrow;
          date = trim js (cell row (indexOf header ''date''))
      in if \<not> isIsoDate date then puzzlesByDate
         else if today < date then puzzlesByDate
         else
           (case Number js (trim js (cell row (indexOf header ''level''))) of
              None \<Rightarrow> puzzlesByDate
            | Some levelNum \<Rightarrow>
                if levelNum \<notin> set [1, 2, 3, 4] then puzzlesByDate
                else
                  (let categoryName = trim js (cell row (indexOf header ''category''))
                   in if categoryName = [] then puzzlesByDate
                      else
                        (let items = filter (\<lambda>w. w \<noteq> [])
                               (map (\<lambda>c. normalizeWord js (cell row (indexOf header c)))
                                  [''word1'', ''word2'', ''word3'', ''word4''])
                         in if length items \<noteq> 4 then puzzlesByDate
                            else
                              (let cat = \<lparr>cref = fst nrow, category = categoryName,
                                          level = levelNum, items = items\<rparr>;
                                   existing = (case map_of puzzlesByDate date of
                                                 None \<Rightarrow> [] | Some cs \<Rightarrow> cs)
                               in mapSet date (existing @ [cat]) puzzlesByDate)))))"

definition puzzlesByDate ::
  "Builtins \<Rightarrow> string \<Rightarrow> string list list \<Rightarrow> (string \<times> Category list) list" where
  "puzzlesByDate js today values =
     fold (addRow js today (map (\<lambda>h. toLowerCase js (trim js h)) (hd values)))
       (enumerate 1 (tl values)) []"

text \<open>
  \<^verbatim>\<open>Array.from(puzzlesByDate.keys()).sort((a, b) => b.localeCompare(a))\<close>: the keys are
  different dates of the shape YYYY-MM-DD, which the collation orders by their digits, so
  the result is the keys in descending order.
\<close>

definition availableDates :: "(string \<times> 'v) list \<Rightarrow> string list" where
  "availableDates m = rev (sort (map fst m))"

text \<open>
  \<^verbatim>\<open>dateToUse\<close>: without an explicit date, and without a puzzle for today, the latest
  available date.
\<close>

definition dateToUse :: "string option \<Rightarrow> string \<Rightarrow> (string \<times> 'v) list \<Rightarrow> string" where
  "dateToUse dateParam requestedDate m =
     (if dateParam = None \<and> map_of m requestedDate = None \<and> availableDates m \<noteq> []
      then hd (availableDates m) else requestedDate)"

text \<open>The handler from the sheet's values on (lines 209 to 348).\<close>

definition fromValues ::
  "Builtins \<Rightarrow> string \<Rightarrow> string option \<Rightarrow> string \<Rightarrow> string list list \<Rightarrow> Response" where
  "fromValues js today dateParam requestedDate values =
     (if length values < 2 then Failure 500 SheetEmpty None
      else
        (let header = map (\<lambda>h. toLowerCase js (trim js h)) (hd values);
             missingCols = filter (\<lambda>n. indexOf header n < 0)
               [''date'', ''level'', ''category'', ''word1'', ''word2'', ''word3'', ''word4'']
         in if missingCols \<noteq> [] then Failure 500 (MissingColumns missingCols) None
            else
              (let m = puzzlesByDate js today values;
                   dates = availableDates m;
                   date = dateToUse dateParam requestedDate m;
                   categories = sort_key Category.level
                     (case map_of m date of None \<Rightarrow> [] | Some cs \<Rightarrow> cs)
               in if length categories \<noteq> 4
                  then Failure 404 (PuzzleIncomplete date) (Some (today, dates))
                  else if length (remdups (map Category.level categories)) \<noteq> 4
                  then Failure 500 (LevelsNotUnique date) (Some (today, dates))
                  else if length (remdups (concat (map items categories))) \<noteq> 16
                  then Failure 500 (WordsNotUnique date) (Some (today, dates))
                  else Puzzle date today dates categories)))"

definition GET :: "Builtins \<Rightarrow> Request \<Rightarrow> Response" where
  "GET js req =
     (if (case sheetsId req of None \<Rightarrow> True | Some sid \<Rightarrow> sid = [])
      then Failure 500 MissingSheetId None
      else
        (let dateParam = (case dateQuery req of
                            None \<Rightarrow> None
                          | Some d \<Rightarrow> if trim js d = [] then None else Some (trim js d));
             requestedDate = (case dateParam of None \<Rightarrow> todayNz req | Some d \<Rightarrow> d)
         in if \<not> isIsoDate requestedDate then Failure 400 InvalidDateFormat None
            else if todayNz req < requestedDate then Failure 403 NotAvailableYet None
            else
              (case credsError req of
                 Some msg \<Rightarrow> Failure 500 (Thrown msg) None
               | None \<Rightarrow>
                   (case sheet req of
                      Inl msg \<Rightarrow> Failure 500 (Thrown msg) None
                    | Inr res \<Rightarrow>
                        fromValues js (todayNz req) dateParam requestedDate
                          (case res of None \<Rightarrow> [] | Some v \<Rightarrow> v)))))"

subsection \<open>The earlier handler\<close>

text \<open>
  The earlier handler reads cells without a default, so a cell may be undefined, and it
  checks nothing but the date of a row.
\<close>

definition cellOpt :: "string list \<Rightarrow> int \<Rightarrow> string option" where
  "cellOpt row i = (if 0 \<le> i \<and> nat i < length row then Some (row ! nat i) else None)"

record RawCategory =
  rawCategory :: "string option"
  rawLevel :: "int option"
  rawItems :: "string option list"

datatype Response1 =
    Failure1 nat RouteError
  | Puzzle1 string string "string list" "RawCategory list option"

text \<open>
  The body of its loop; \<^verbatim>\<open>isIsoDate(undefined)\<close> is false, and \<^verbatim>\<open>Number(undefined)\<close> is
  not a number.
\<close>

definition addRow1 ::
  "Builtins \<Rightarrow> string \<Rightarrow> string list \<Rightarrow> string list \<Rightarrow>
   (string \<times> RawCategory list) list \<Rightarrow> (string \<times> RawCategory list) list" where
  "addRow1 js today header row puzzles =
     (case cellOpt row (indexOf header ''date'') of
        None \<Rightarrow> puzzles
      | Some date \<Rightarrow>
          if \<not> isIsoDate date \<or> today < date then puzzles
          else
            (let category =
                   \<lparr>rawCategory = cellOpt row (indexOf header ''category''),
                    rawLevel = (case cellOpt row (indexOf header ''level'') of
                                  None \<Rightarrow> None | Some c \<Rightarrow> Number js c),
                    rawItems = map (\<lambda>c. cellOpt row (indexOf header c))
                                 [''word1'', ''word2'', ''word3'', ''word4'']\<rparr>
             in mapSet date
                  ((case map_of puzzles date of None \<Rightarrow> [] | Some cs \<Rightarrow> cs) @ [category])
                  puzzles))"

definition puzzles1 ::
  "Builtins \<Rightarrow> string \<Rightarrow> string list list \<Rightarrow> (string \<times> RawCategory list) list" where
  "puzzles1 js today rows =
     fold (addRow1 js today (map (toLowerCase js) (hd rows))) (tl rows) []"

text \<open>
  On an empty table \<^verbatim>\<open>rows[0].map\<close> throws a TypeError, whose message the engine words;
  it stands as \<open>Thrown ''TypeError''\<close>.
\<close>

definition GET1 :: "Builtins \<Rightarrow> Request \<Rightarrow> Response1" where
  "GET1 js req =
     (if (case sheetsId req of None \<Rightarrow> True | Some sid \<Rightarrow> sid = [])
      then Failure1 500 MissingSheetId
      else
        (let requestedDate = (case dateQuery req of
                                None \<Rightarrow> todayNz req
                              | Some d \<Rightarrow> if d = [] then todayNz req else d)
         in if \<not> isIsoDate requestedDate \<or> todayNz req < requestedDate
            then Failure1 403 InvalidOrFutureDate
            else
              (case credsError req of
                 Some msg \<Rightarrow> Failure1 500 (Thrown msg)
               | None \<Rightarrow>
                   (case sheet req of
                      Inl msg \<Rightarrow> Failure1 500 (Thrown msg)
                    | Inr res \<Rightarrow>
                        (let rows = (case res of None \<Rightarrow> [] | Some v \<Rightarrow> v)
                         in if rows = [] then Failure1 500 (Thrown ''TypeError'')
                            else
                              (let puzzles = puzzles1 js (todayNz req) rows
                               in Puzzle1 requestedDate (todayNz req)
                                    (rev (sort (map fst puzzles)))
                                    (map_of puzzles requestedDate)))))))"

subsection \<open>A concrete sheet\<close>

text \<open>
  On the strings of this sheet the built-ins act as the identity: no cell has white space
  around it, the header is in lower case and the words are in upper case.
\<close>

definition exampleBuiltins :: Builtins where
  "exampleBuiltins =
     \<lparr>trim = (\<lambda>s. s), toLowerCase = (\<lambda>s. s), toUpperCase = (\<lambda>s. s),
      Number = (\<lambda>s. if s = ''1'' then Some 1 else if s = ''2'' then Some 2
                     else if s = ''3'' then Some 3 else if s = ''4'' then Some 4 else None)\<rparr>"

definition exampleSheet :: "string list list" where
  "exampleSheet =
     [[''date'', ''level'', ''category'', ''word1'', ''word2'', ''word3'', ''word4''],
      [''2024-05-01'', ''2'', ''COLOR'', ''RED'', ''BLUE'', ''GREEN'', ''GOLD''],
      [''2024-05-01'', ''1'', ''FRUIT'', ''APPLE'', ''PEAR'', ''PLUM'', ''KIWI''],
      [''2024-05-03'', ''1'', ''BIRD'', ''WREN'', ''KAKA'', ''TUI'', ''KEA''],
      [''2024-05-01'', ''4'', ''TOOL'', ''SAW'', ''AXE'', ''HAMMER'', ''DRILL''],
      [''2024-05-01'', ''3'', ''METAL'', ''IRON'', ''ZINC'', ''TIN'', ''LEAD'']]"

definition exampleRequest :: "string option \<Rightarrow> Request" where
  "exampleRequest q =
     \<lparr>sheetsId = Some ''sheet'', todayNz = ''2024-05-02'', dateQuery = q, credsError = None,
      sheet = Inr (Some exampleSheet)\<rparr>"


subsection \<open>What holds of the puzzle map\<close>

text \<open>
  Every key of the map has the shape of a date and is not after today, and every category
  stored under a key was built from one of the rows \<open>R\<close> that bears this date.
\<close>

definition datedOk :: "Builtins \<Rightarrow> string \<Rightarrow> string list \<Rightarrow> (nat \<times> string list) set \<Rightarrow>
    (string \<times> Category list) list \<Rightarrow> bool" where
  "datedOk js today header R m =
     (\<forall>k cs. map_of m k = Some cs \<longrightarrow>
        isIsoDate k \<and> k \<le> today \<and>
        (\<forall>c\<in>set cs. \<exists>nrow\<in>R. cref c = fst nrow \<and>
           trim js (cell (snd nrow) (indexOf header ''date'')) = k))"

section \<open>Lemmas on the round engine\<close>

subsection \<open>Building objects in a map\<close>

lemma mapAlloc_none:
  "\<forall>x\<in>set xs. cb x = None \<Longrightarrow> mapAlloc cb n xs = (xs, n)"
  by (induction xs arbitrary: n) auto

lemma mapAlloc_append:
  "mapAlloc cb n (xs @ ys) =
     (case mapAlloc cb n xs of (xs', n') \<Rightarrow>
        (case mapAlloc cb n' ys of (ys', n'') \<Rightarrow> (xs' @ ys', n'')))"
  by (induction xs arbitrary: n) (auto simp: case_prod_unfold Let_def split: option.splits)

lemma mapAlloc_word:
  "\<forall>x y. cb x = Some y \<longrightarrow> word y = word x \<Longrightarrow>
   map word (fst (mapAlloc cb n xs)) = map word xs"
  by (induction xs arbitrary: n) (auto simp: case_prod_unfold Let_def split: option.splits)

lemma mapAlloc_one:
  assumes "cb x = Some y" and "\<forall>z\<in>set pre. cb z = None" and "\<forall>z\<in>set post. cb z = None"
  shows "mapAlloc cb n (pre @ x # post) = (pre @ y\<lparr>wref := n\<rparr> # post, Suc n)"
  using assms by (simp add: mapAlloc_append mapAlloc_none)

text \<open>A board without repeated words has at most one tile with a given text.\<close>

lemma distinct_word_split:
  assumes "distinct (map word xs)" and "x \<in> set xs"
  shows "\<exists>pre post. xs = pre @ x # post \<and>
           (\<forall>z\<in>set pre. word z \<noteq> word x) \<and> (\<forall>z\<in>set post. word z \<noteq> word x)"
proof -
  from assms(2) obtain pre post where xs: "xs = pre @ x # post"
    by (auto dest: split_list)
  with assms(1) have "word x \<notin> word ` set pre" "word x \<notin> word ` set post"
    by auto
  then have "\<forall>z\<in>set pre. word z \<noteq> word x" "\<forall>z\<in>set post. word z \<noteq> word x"
    by (metis imageI)+
  with xs show ?thesis by blast
qed

lemma selectWord_absent:
  assumes "word w \<notin> word ` set (gameWords s)"
  shows "selectWord w s = s"
proof -
  have "mapAlloc (\<lambda>item. if word w = word item then
               Some (item\<lparr>selected :=
                 Some (if length (selectedWords s) < 4 then \<not> truthy (selected item) else False)\<rparr>)
             else None) (nextRef s) (gameWords s) = (gameWords s, nextRef s)"
    using assms by (intro mapAlloc_none) auto
  then show ?thesis by (simp add: selectWord_def)
qed

lemma selectWord_present:
  assumes "gameWords s = pre @ x # post" and "word w = word x"
    and "\<forall>z\<in>set pre. word z \<noteq> word x" and "\<forall>z\<in>set post. word z \<noteq> word x"
  shows "selectWord w s = s\<lparr>gameWords := pre @ toggled s x # post, nextRef := Suc (nextRef s)\<rparr>"
proof -
  let ?cb = "\<lambda>item. if word w = word item then
               Some (item\<lparr>selected :=
                 Some (if length (selectedWords s) < 4 then \<not> truthy (selected item) else False)\<rparr>)
             else None"
  have "mapAlloc ?cb (nextRef s) (pre @ x # post) =
          (pre @ (x\<lparr>selected :=
                 Some (if length (selectedWords s) < 4 then \<not> truthy (selected x) else False)\<rparr>)\<lparr>wref := nextRef s\<rparr> # post, Suc (nextRef s))"
    using assms(2-) by (intro mapAlloc_one) force+
  then show ?thesis using assms(1) by (simp add: selectWord_def toggled_def)
qed

lemma selectWord_frame:
  "clearedCategories (selectWord w s) = clearedCategories s"
  "isWon (selectWord w s) = isWon s" "isLost (selectWord w s) = isLost s"
  "mistakesRemaining (selectWord w s) = mistakesRemaining s"
  "guessHistory (selectWord w s) = guessHistory s"
  by (simp_all add: selectWord_def case_prod_unfold Let_def)

lemma selectWord_words: "map word (gameWords (selectWord w s)) = map word (gameWords s)"
  by (simp add: selectWord_def case_prod_unfold Let_def mapAlloc_word)

lemma selectWord_bound:
  assumes "distinct (map word (gameWords s))" and "length (selectedWords s) \<le> 4"
  shows "length (selectedWords (selectWord w s)) \<le> 4"
proof (cases "word w \<in> word ` set (gameWords s)")
  case False
  then show ?thesis using assms(2) by (simp add: selectWord_absent)
next
  case True
  then obtain x where x: "x \<in> set (gameWords s)" "word w = word x" by auto
  from distinct_word_split [OF assms(1) x(1)] obtain pre post
    where sp: "gameWords s = pre @ x # post"
      "\<forall>z\<in>set pre. word z \<noteq> word x" "\<forall>z\<in>set post. word z \<noteq> word x"
    by blast
  have old: "length (selectedWords s) =
      length (filter (\<lambda>i. truthy (selected i)) pre) + (if truthy (selected x) then 1 else 0)
      + length (filter (\<lambda>i. truthy (selected i)) post)"
    by (simp add: selectedWords_def sp(1))
  have new: "length (selectedWords (selectWord w s)) =
      length (filter (\<lambda>i. truthy (selected i)) pre) + (if truthy (selected (toggled s x)) then 1 else 0)
      + length (filter (\<lambda>i. truthy (selected i)) post)"
    by (simp add: selectWord_present [OF sp(1) x(2) sp(2,3)] selectedWords_def)
  show ?thesis
  proof (cases "length (selectedWords s) < 4")
    case True
    then show ?thesis using old new by (simp split: if_splits)
  next
    case False
    then have "\<not> truthy (selected (toggled s x))" by (simp add: toggled_def)
    then show ?thesis using old new assms(2) by (simp split: if_splits)
  qed
qed

subsection \<open>Valid puzzles\<close>

lemma valid_items:
  assumes "validPuzzle cats" and "c \<in> set cats"
  shows "length (items c) = 4" and "distinct (items c)"
proof -
  show "length (items c) = 4"
    using assms by (auto simp: validPuzzle_def list_all_iff)
  have "distinct (concat (map items cats))"
    using assms(1) by (simp add: validPuzzle_def)
  then show "distinct (items c)"
    using assms(2) by (simp add: distinct_concat_iff)
qed

lemma valid_category_of_word:
  assumes "validPuzzle cats" and "c \<in> set cats" and "c' \<in> set cats"
    and "w \<in> set (items c)" and "w \<in> set (items c')"
  shows "c = c'"
proof -
  have d: "distinct (concat (map items cats))"
    using assms(1) by (simp add: validPuzzle_def)
  have same: "items c = items c'"
  proof (rule ccontr)
    assume "items c \<noteq> items c'"
    with d assms(2,3) have "set (items c) \<inter> set (items c') = {}"
      by (simp add: distinct_concat_iff)
    with assms(4,5) show False by blast
  qed
  have "\<forall>x\<in>set cats. items x \<noteq> []"
    using valid_items(1) [OF assms(1)] by fastforce
  then have "[] \<notin> set (map items cats)"
    by auto
  then have "removeAll [] (map items cats) = map items cats"
    by simp
  with d have "distinct (map items cats)"
    by (simp add: distinct_concat_iff)
  then have "inj_on items (set cats)"
    by (simp add: distinct_map)
  with same assms(2,3) show ?thesis by (auto dest: inj_onD)
qed

lemma valid_cref:
  assumes "validPuzzle cats" and "c \<in> set cats" and "c' \<in> set cats" and "cref c = cref c'"
  shows "c = c'"
proof -
  have "inj_on cref (set cats)"
    using assms(1) by (simp add: validPuzzle_def distinct_map)
  with assms(2-) show ?thesis by (auto dest: inj_onD)
qed

lemma valid_distinct: "validPuzzle cats \<Longrightarrow> distinct cats"
  by (simp add: validPuzzle_def distinct_map)

lemma includesCategory_iff:
  assumes "validPuzzle cats" and "set cl \<subseteq> set cats" and "c \<in> set cats"
  shows "includesCategory cl c \<longleftrightarrow> c \<in> set cl"
  using assms valid_cref [OF assms(1)] by (auto simp: includesCategory_def)

lemma remaining_iff:
  assumes "validPuzzle cats" and "set (clearedCategories s) \<subseteq> set cats"
  shows "remainingCategories cats s = filter (\<lambda>c. c \<notin> set (clearedCategories s)) cats"
  unfolding remainingCategories_def
  by (rule filter_cong) (simp_all add: includesCategory_iff [OF assms])

subsection \<open>JavaScript helpers\<close>

lemma Math_max_Cons: "Math_max (x # xs) = Some (Max (set (x # xs)))"
  by (simp only: Math_max.simps Max.set_eq_fold)

lemma Math_max_Max: "xs \<noteq> [] \<Longrightarrow> Math_max xs = Some (Max (set xs))"
  by (cases xs) (simp_all only: Math_max_Cons list.simps)

lemma Math_max_mem: "Math_max xs = Some m \<Longrightarrow> m \<in> set xs"
  by (cases "xs = []") (auto simp: Math_max_Max)

lemma Math_max_ge: "Math_max xs = Some m \<Longrightarrow> x \<in> set xs \<Longrightarrow> x \<le> m"
  by (cases "xs = []") (auto simp: Math_max_Max)

lemma Math_max_eqI:
  assumes "m \<in> set xs" and "\<forall>x\<in>set xs. x \<le> m"
  shows "Math_max xs = Some m"
proof -
  from assms(1) have "xs \<noteq> []" by auto
  moreover have "Max (set xs) = m"
    using assms by (intro Max_eqI) auto
  ultimately show ?thesis by (simp add: Math_max_Max)
qed

lemma indexOf_mem:
  "v \<in> set xs \<Longrightarrow>
     0 \<le> indexOf xs v \<and> nat (indexOf xs v) < length xs \<and> xs ! nat (indexOf xs v) = v"
proof (induction xs)
  case Nil
  then show ?case by simp
next
  case (Cons x xs)
  show ?case
  proof (cases "x = v")
    case True
    then show ?thesis by simp
  next
    case False
    with Cons.prems have "v \<in> set xs" by simp
    from Cons.IH [OF this] False show ?thesis
      by (simp add: Let_def nat_add_distrib)
  qed
qed

text \<open>Whenever the maximum likeness is 4, the index read from the puzzle is in range and
  the category there has likeness 4.\<close>

lemma maxIndex_in_range:
  assumes "Math_max (likenessCounts cats s) = Some 4"
  shows "0 \<le> indexOf (map Some (likenessCounts cats s)) (Some 4)"
    and "nat (indexOf (map Some (likenessCounts cats s)) (Some 4)) < length cats"
    and "likenessCounts cats s ! nat (indexOf (map Some (likenessCounts cats s)) (Some 4)) = 4"
proof -
  let ?xs = "map Some (likenessCounts cats s)"
  have "Some 4 \<in> set ?xs"
    using Math_max_mem [OF assms] by simp
  from indexOf_mem [OF this]
  have i: "0 \<le> indexOf ?xs (Some 4)" "nat (indexOf ?xs (Some 4)) < length ?xs"
    "?xs ! nat (indexOf ?xs (Some 4)) = Some 4"
    by simp_all
  show "0 \<le> indexOf ?xs (Some 4)" by (rule i(1))
  show "nat (indexOf ?xs (Some 4)) < length cats"
    using i(2) by (simp add: likenessCounts_def)
  show "likenessCounts cats s ! nat (indexOf ?xs (Some 4)) = 4"
    using i(2,3) by simp
qed

subsection \<open>Initialising\<close>

lemma puzzleWords_word: "map word (puzzleWords cats n) = concat (map items cats)"
proof -
  let ?L = "concat (map (\<lambda>c. map (\<lambda>w. (w, Category.level c)) (items c)) cats)"
  have "map word (puzzleWords cats n) = map (\<lambda>p. fst (snd p)) (enumerate 0 ?L)"
    by (simp add: puzzleWords_def case_prod_unfold)
  also have "\<dots> = map (fst \<circ> snd) (enumerate 0 ?L)"
    by (simp add: comp_def)
  also have "\<dots> = map fst (map snd (enumerate 0 ?L))"
    by (simp only: map_map)
  also have "\<dots> = map fst ?L"
    by (simp only: map_snd_enumerate)
  also have "\<dots> = concat (map items cats)"
    by (simp add: map_concat o_def)
  finally show ?thesis .
qed

lemma puzzleWords_unselected: "x \<in> set (puzzleWords cats n) \<Longrightarrow> selected x = None"
  by (auto simp: puzzleWords_def)

lemma remaining_start:
  "clearedCategories s = [] \<Longrightarrow> remainingCategories cats s = cats"
  by (simp add: remainingCategories_def includesCategory_def)

lemma roundInv_initialize:
  assumes "validPuzzle cats"
    and "mset (sh (puzzleWords cats (nextRef s0))) = mset (puzzleWords cats (nextRef s0))"
  shows "roundInv cats (initialize sh (Some cats) s0)"
proof -
  let ?ws = "puzzleWords cats (nextRef s0)"
  let ?s = "initialize sh (Some cats) s0"
  have ne: "cats \<noteq> []" using assms(1) by (auto simp: validPuzzle_def)
  then have gw: "gameWords ?s = sh ?ws" and cl: "clearedCategories ?s = []"
    and fl: "\<not> isWon ?s" "\<not> isLost ?s"
    by (simp_all add: initialize_def)
  have m: "mset (map word (sh ?ws)) = mset (concat (map items cats))"
    using assms(2) puzzleWords_word [of cats "nextRef s0"] by (metis mset_map)
  have d: "distinct (concat (map items cats))"
    using assms(1) by (simp add: validPuzzle_def)
  have 1: "distinct (map word (gameWords ?s))"
    using m d gw by (metis mset_eq_imp_distinct_iff)
  have 2: "set (map word (gameWords ?s)) = set (concat (map items (remainingCategories cats ?s)))"
    using m gw by (metis mset_eq_setD remaining_start [OF cl])
  have "set (sh ?ws) = set ?ws"
    using assms(2) by (rule mset_eq_setD)
  then have "\<forall>x\<in>set (gameWords ?s). selected x = None"
    using gw puzzleWords_unselected by auto
  then have 3: "selectedWords ?s = []"
    by (simp add: selectedWords_def filter_empty_conv)
  show ?thesis
    unfolding roundInv_def using 1 2 3 fl by (simp add: cl remaining_start [OF cl])
qed

subsection \<open>Selecting, shuffling, deselecting\<close>

lemma remaining_cong:
  "clearedCategories s' = clearedCategories s \<Longrightarrow>
   remainingCategories cats s' = remainingCategories cats s"
  by (simp add: remainingCategories_def)

lemma roundInv_selectWord:
  assumes "roundInv cats s"
  shows "roundInv cats (selectWord w s)"
proof -
  have b: "length (selectedWords (selectWord w s)) \<le> 4"
    using assms by (intro selectWord_bound) (simp_all add: roundInv_def)
  have e: "gameWords s = [] \<Longrightarrow> gameWords (selectWord w s) = []"
    by (simp add: selectWord_def)
  show ?thesis
    using assms b e unfolding roundInv_def
    by (simp add: selectWord_frame selectWord_words remaining_cong [OF selectWord_frame(1)]
        del: set_map)
qed

lemma roundInv_shuffleWords:
  assumes "roundInv cats s" and "mset (sh (gameWords s)) = mset (gameWords s)"
  shows "roundInv cats (shuffleWords sh s)"
proof -
  let ?s = "shuffleWords sh s"
  have gw: "gameWords ?s = sh (gameWords s)" by (simp add: shuffleWords_def)
  have cl: "clearedCategories ?s = clearedCategories s" by (simp add: shuffleWords_def)
  have m: "mset (map word (sh (gameWords s))) = mset (map word (gameWords s))"
    using assms(2) by (metis mset_map)
  have 1: "distinct (map word (gameWords ?s))"
    using m assms(1) gw by (metis mset_eq_imp_distinct_iff roundInv_def)
  have 2: "set (map word (gameWords ?s)) = set (map word (gameWords s))"
    using m gw by (metis mset_eq_setD)
  have 3: "length (selectedWords ?s) = length (selectedWords s)"
    unfolding selectedWords_def gw using assms(2) by (metis mset_filter size_mset)
  have 4: "gameWords s = [] \<Longrightarrow> gameWords ?s = []"
    using assms(2) gw by (metis mset_zero_iff)
  have fl: "isWon ?s = isWon s" "isLost ?s = isLost s"
    by (simp_all add: shuffleWords_def)
  show ?thesis
    using assms(1) 1 2 3 4 unfolding roundInv_def
    by (simp add: remaining_cong [OF cl] cl fl del: set_map)
qed

lemma deselectAllWords_frame:
  "clearedCategories (deselectAllWords s) = clearedCategories s"
  "isWon (deselectAllWords s) = isWon s" "isLost (deselectAllWords s) = isLost s"
  "mistakesRemaining (deselectAllWords s) = mistakesRemaining s"
  "guessHistory (deselectAllWords s) = guessHistory s"
  by (simp_all add: deselectAllWords_def case_prod_unfold Let_def)

lemma deselectAllWords_words:
  "map word (gameWords (deselectAllWords s)) = map word (gameWords s)"
  by (simp add: deselectAllWords_def case_prod_unfold Let_def mapAlloc_word)

lemma mapAlloc_deselected:
  "x \<in> set (fst (mapAlloc (\<lambda>item. Some (item\<lparr>selected := Some False\<rparr>)) n xs)) \<Longrightarrow>
   selected x = Some False"
  by (induction xs arbitrary: n) (auto simp: case_prod_unfold Let_def)

lemma deselectAllWords_selected: "selectedWords (deselectAllWords s) = []"
  by (auto simp: selectedWords_def deselectAllWords_def case_prod_unfold Let_def
      filter_empty_conv dest: mapAlloc_deselected)

lemma roundInv_deselectAllWords:
  assumes "roundInv cats s"
  shows "roundInv cats (deselectAllWords s)"
proof -
  have e: "gameWords s = [] \<Longrightarrow> gameWords (deselectAllWords s) = []"
    by (simp add: deselectAllWords_def)
  show ?thesis
    using assms e unfolding roundInv_def
    by (simp add: deselectAllWords_frame deselectAllWords_words deselectAllWords_selected
        remaining_cong [OF deselectAllWords_frame(1)] del: set_map)
qed

subsection \<open>Clearing a category\<close>

lemma revealCategory_fields:
  "clearedCategories (revealCategory c s) = clearedCategories s @ [c]"
  "gameWords (revealCategory c s) = filter (\<lambda>item. word item \<notin> set (items c)) (gameWords s)"
  "isWon (revealCategory c s) = isWon s" "isLost (revealCategory c s) = isLost s"
  "mistakesRemaining (revealCategory c s) = mistakesRemaining s"
  "guessHistory (revealCategory c s) = guessHistory s"
  by (simp_all add: revealCategory_def)

lemma remaining_revealCategory:
  assumes "validPuzzle cats" and "set (clearedCategories s) \<subseteq> set cats" and "c \<in> set cats"
  shows "remainingCategories cats (revealCategory c s) =
           filter (\<lambda>x. x \<noteq> c) (remainingCategories cats s)"
proof -
  have "set (clearedCategories (revealCategory c s)) \<subseteq> set cats"
    using assms(2,3) by (simp add: revealCategory_fields)
  from remaining_iff [OF assms(1) this] remaining_iff [OF assms(1,2)]
  show ?thesis
    by (simp add: revealCategory_fields conj_commute)
qed

lemma length_filter_neq:
  assumes "distinct xs" and "c \<in> set xs"
  shows "length (filter (\<lambda>x. x \<noteq> c) xs) + 1 = length xs"
proof -
  have "{x. x = c} \<inter> set xs = {c}" using assms(2) by auto
  then have "length (filter (\<lambda>x. x = c) xs) = 1"
    using distinct_length_filter [OF assms(1), of "\<lambda>x. x = c"] by simp
  then show ?thesis
    using sum_length_filter_compl [of "\<lambda>x. x = c" xs] by (simp add: comp_def)
qed

lemma length_filter_words:
  assumes "distinct (map word xs)" and "distinct ws" and "set ws \<subseteq> set (map word xs)"
  shows "length (filter (\<lambda>item. word item \<in> set ws) xs) = length ws"
proof -
  have "length (filter (\<lambda>item. word item \<in> set ws) xs)
          = length (filter (\<lambda>w. w \<in> set ws) (map word xs))"
    by (simp add: filter_map comp_def)
  also have "\<dots> = card ({w. w \<in> set ws} \<inter> set (map word xs))"
    by (rule distinct_length_filter [OF assms(1)])
  also have "{w. w \<in> set ws} \<inter> set (map word xs) = set ws"
    using assms(3) by auto
  also have "card (set ws) = length ws"
    by (rule distinct_card [OF assms(2)])
  finally show ?thesis .
qed

lemma roundInv_board:
  "roundInv cats s \<Longrightarrow>
     word ` set (gameWords s) = (\<Union>x\<in>set (remainingCategories cats s). set (items x))"
  by (simp add: roundInv_def)

lemma roundInv_revealCategory:
  assumes v: "validPuzzle cats" and i: "roundInv cats s"
    and c: "c \<in> set (remainingCategories cats s)"
  shows "roundInv cats (revealCategory c s)"
proof -
  let ?s = "revealCategory c s"
  from i have sub: "set (clearedCategories s) \<subseteq> set cats" by (simp add: roundInv_def)
  from c have cc: "c \<in> set cats" by (simp add: remainingCategories_def)
  from c have cn: "c \<notin> set (clearedCategories s)"
    by (simp add: remaining_iff [OF v sub])
  have rem: "remainingCategories cats ?s = filter (\<lambda>x. x \<noteq> c) (remainingCategories cats s)"
    by (rule remaining_revealCategory [OF v sub cc])
  have 1: "distinct (map word (gameWords ?s))"
    using i by (simp add: revealCategory_fields roundInv_def distinct_map_filter)
  have old: "word ` set (gameWords s) = (\<Union>x\<in>set (remainingCategories cats s). set (items x))"
    using i by (rule roundInv_board)
  have disj: "set (items x) \<inter> set (items c) = {}"
    if "x \<in> set (remainingCategories cats s)" "x \<noteq> c" for x
  proof -
    from that(1) have "x \<in> set cats" by (simp add: remainingCategories_def)
    with valid_category_of_word [OF v this cc] that(2) show ?thesis by blast
  qed
  have "set (map word (gameWords ?s)) = word ` set (gameWords s) - set (items c)"
    by (auto simp: revealCategory_fields)
  also have "\<dots> = (\<Union>x\<in>set (remainingCategories cats s). set (items x)) - set (items c)"
    by (simp only: old)
  also have "\<dots> = (\<Union>x\<in>set (remainingCategories cats ?s). set (items x))"
    unfolding rem using disj by auto
  finally have 2: "set (map word (gameWords ?s)) =
      set (concat (map items (remainingCategories cats ?s)))"
    by simp
  have 3: "set (clearedCategories ?s) \<subseteq> set cats"
    using sub cc by (simp add: revealCategory_fields)
  have "cref c \<notin> cref ` set (clearedCategories s)"
  proof
    assume "cref c \<in> cref ` set (clearedCategories s)"
    then obtain x where x: "x \<in> set (clearedCategories s)" "cref c = cref x" by auto
    with sub have "x \<in> set cats" by auto
    from valid_cref [OF v cc this x(2)] x(1) cn show False by simp
  qed
  then have 4: "distinct (map cref (clearedCategories ?s))"
    using i by (simp add: revealCategory_fields roundInv_def)
  have "distinct (remainingCategories cats s)"
    using valid_distinct [OF v] by (simp add: remainingCategories_def)
  from length_filter_neq [OF this c]
  have 5: "length (remainingCategories cats ?s) + length (clearedCategories ?s) = length cats"
    using i by (simp add: rem revealCategory_fields roundInv_def)
  have "selectedWords ?s = filter (\<lambda>item. word item \<notin> set (items c)) (selectedWords s)"
    by (simp add: selectedWords_def revealCategory_fields conj_commute)
  then have "length (selectedWords ?s) \<le> length (selectedWords s)"
    by simp
  then have 6: "length (selectedWords ?s) \<le> 4"
    using i by (simp add: roundInv_def)
  show ?thesis
    unfolding roundInv_def using 1 2 3 4 5 6 by blast
qed

text \<open>The board loses exactly the four words of the category.\<close>

lemma revealCategory_board:
  assumes v: "validPuzzle cats" and i: "roundInv cats s"
    and c: "c \<in> set (remainingCategories cats s)"
  shows "length (gameWords (revealCategory c s)) + 4 = length (gameWords s)"
proof -
  from c have cc: "c \<in> set cats" by (simp add: remainingCategories_def)
  have "set (items c) \<subseteq> set (map word (gameWords s))"
    using roundInv_board [OF i] c by auto
  moreover have "distinct (map word (gameWords s))"
    using i by (simp add: roundInv_def)
  ultimately have "length (filter (\<lambda>item. word item \<in> set (items c)) (gameWords s)) = 4"
    using valid_items [OF v cc] by (simp only: length_filter_words)
  then show ?thesis
    using sum_length_filter_compl [of "\<lambda>item. word item \<in> set (items c)" "gameWords s"]
    by (simp add: revealCategory_fields comp_def)
qed

text \<open>Once no category remains, the board is empty, and conversely.\<close>

lemma board_empty_iff:
  assumes v: "validPuzzle cats" and i: "roundInv cats s"
  shows "gameWords s = [] \<longleftrightarrow> length (clearedCategories s) = 4"
proof -
  have len: "length (remainingCategories cats s) + length (clearedCategories s) = 4"
    using v i by (simp add: roundInv_def validPuzzle_def)
  have w: "word ` set (gameWords s) = (\<Union>x\<in>set (remainingCategories cats s). set (items x))"
    using i by (rule roundInv_board)
  show ?thesis
  proof
    assume "gameWords s = []"
    with w have e: "\<forall>x\<in>set (remainingCategories cats s). set (items x) = {}" by simp
    have "remainingCategories cats s = []"
    proof (rule ccontr)
      assume "remainingCategories cats s \<noteq> []"
      then have x: "hd (remainingCategories cats s) \<in> set (remainingCategories cats s)"
        by simp
      then have "hd (remainingCategories cats s) \<in> set cats"
        by (simp add: remainingCategories_def)
      from valid_items(1) [OF v this] e x show False by auto
    qed
    with len show "length (clearedCategories s) = 4" by simp
  next
    assume "length (clearedCategories s) = 4"
    with len have "remainingCategories cats s = []" by simp
    with w show "gameWords s = []" by simp
  qed
qed

subsection \<open>Submitting\<close>

lemma getSubmitResult_cases:
  "getSubmitResult (Some cats) s =
     (if sameGuess s then (Same, s)
      else if Math_max (likenessCounts cats s) = Some 4 then
        (if length (clearedCategories s) = 3 then Win else Correct,
         revealCategory (cats ! nat (indexOf (map Some (likenessCounts cats s)) (Some 4)))
           (s\<lparr>guessHistory := guessHistory s @ [selectedWords s]\<rparr>))
      else
        (if mistakesRemaining s = 1 then Loss
         else if Math_max (likenessCounts cats s) = Some 3 then OneAway
         else Incorrect,
         s\<lparr>guessHistory := guessHistory s @ [selectedWords s],
           mistakesRemaining := mistakesRemaining s - 1\<rparr>))"
  by (simp add: getSubmitResult_def Let_def getCorrectResult_def getIncorrectResult_def
      revealCategory_def)

lemma roundInv_history [simp]: "roundInv cats (s\<lparr>guessHistory := h\<rparr>) = roundInv cats s"
  by (simp add: roundInv_def selectedWords_def remainingCategories_def)

lemma roundInv_mistakes [simp]: "roundInv cats (s\<lparr>mistakesRemaining := m\<rparr>) = roundInv cats s"
  by (simp add: roundInv_def selectedWords_def remainingCategories_def)

lemma remaining_history [simp]:
  "remainingCategories cats (s\<lparr>guessHistory := h\<rparr>) = remainingCategories cats s"
  by (simp add: remainingCategories_def)

lemma likeness_history [simp]:
  "likenessCounts cats (s\<lparr>guessHistory := h\<rparr>) = likenessCounts cats s"
  by (simp add: likenessCounts_def selectedWords_def)

text \<open>A category that holds a word of the board has not been cleared.\<close>

lemma category_of_board_word:
  assumes v: "validPuzzle cats" and i: "roundInv cats s"
    and c: "c \<in> set cats" and x: "x \<in> set (gameWords s)" and w: "word x \<in> set (items c)"
  shows "c \<in> set (remainingCategories cats s)"
proof -
  from x have "word x \<in> word ` set (gameWords s)" by simp
  then have "word x \<in> (\<Union>y\<in>set (remainingCategories cats s). set (items y))"
    by (simp only: roundInv_board [OF i])
  then obtain c' where c': "c' \<in> set (remainingCategories cats s)" "word x \<in> set (items c')"
    by auto
  then have "c' \<in> set cats" by (simp add: remainingCategories_def)
  from valid_category_of_word [OF v c this w c'(2)] c'(1) show ?thesis by simp
qed

lemma hit_category:
  assumes v: "validPuzzle cats" and i: "roundInv cats s"
    and m: "Math_max (likenessCounts cats s) = Some 4"
  shows "cats ! nat (indexOf (map Some (likenessCounts cats s)) (Some 4))
           \<in> set (remainingCategories cats s)"
proof -
  let ?i = "nat (indexOf (map Some (likenessCounts cats s)) (Some 4))"
  let ?sel = "filter (\<lambda>item. word item \<in> set (items (cats ! ?i))) (selectedWords s)"
  from maxIndex_in_range [OF m] have r: "?i < length cats" and l: "likenessCounts cats s ! ?i = 4"
    by simp_all
  from r have c: "cats ! ?i \<in> set cats" by simp
  from l r have "length ?sel = 4" by (simp add: likenessCounts_def)
  then have "?sel \<noteq> []" by auto
  then have "\<exists>x\<in>set (selectedWords s). word x \<in> set (items (cats ! ?i))"
    by (simp add: filter_empty_conv)
  then obtain x where "x \<in> set (gameWords s)" "word x \<in> set (items (cats ! ?i))"
    by (auto simp: selectedWords_def)
  then show ?thesis by (rule category_of_board_word [OF v i c])
qed

subsection \<open>The reveal after a loss\<close>

lemma fold_revealCategory:
  assumes v: "validPuzzle cats"
  shows "roundInv cats s \<Longrightarrow> set rem \<subseteq> set (remainingCategories cats s) \<Longrightarrow> distinct rem \<Longrightarrow>
    roundInv cats (fold revealCategory rem s) \<and>
    clearedCategories (fold revealCategory rem s) = clearedCategories s @ rem \<and>
    remainingCategories cats (fold revealCategory rem s) =
      filter (\<lambda>x. x \<notin> set rem) (remainingCategories cats s) \<and>
    isWon (fold revealCategory rem s) = isWon s \<and>
    isLost (fold revealCategory rem s) = isLost s \<and>
    mistakesRemaining (fold revealCategory rem s) = mistakesRemaining s \<and>
    guessHistory (fold revealCategory rem s) = guessHistory s"
proof (induction rem arbitrary: s)
  case Nil
  then show ?case by simp
next
  case (Cons c rest)
  let ?s = "revealCategory c s"
  from Cons.prems have c: "c \<in> set (remainingCategories cats s)" by simp
  then have cc: "c \<in> set cats" by (simp add: remainingCategories_def)
  from Cons.prems(1) have sub: "set (clearedCategories s) \<subseteq> set cats"
    by (simp add: roundInv_def)
  have i: "roundInv cats ?s"
    by (rule roundInv_revealCategory [OF v Cons.prems(1) c])
  have rem: "remainingCategories cats ?s = filter (\<lambda>x. x \<noteq> c) (remainingCategories cats s)"
    by (rule remaining_revealCategory [OF v sub cc])
  have "set rest \<subseteq> set (remainingCategories cats ?s)"
    using Cons.prems(2,3) by (auto simp: rem)
  moreover have "distinct rest" using Cons.prems(3) by simp
  ultimately have ih:
    "roundInv cats (fold revealCategory rest ?s) \<and>
     clearedCategories (fold revealCategory rest ?s) = clearedCategories ?s @ rest \<and>
     remainingCategories cats (fold revealCategory rest ?s) =
       filter (\<lambda>x. x \<notin> set rest) (remainingCategories cats ?s) \<and>
     isWon (fold revealCategory rest ?s) = isWon ?s \<and>
     isLost (fold revealCategory rest ?s) = isLost ?s \<and>
     mistakesRemaining (fold revealCategory rest ?s) = mistakesRemaining ?s \<and>
     guessHistory (fold revealCategory rest ?s) = guessHistory ?s"
    by (rule Cons.IH [OF i])
  have "filter (\<lambda>x. x \<notin> set rest) (filter (\<lambda>x. x \<noteq> c) (remainingCategories cats s)) =
        filter (\<lambda>x. x \<notin> set (c # rest)) (remainingCategories cats s)"
    by (auto intro: filter_cong)
  with ih show ?case
    by (simp add: rem revealCategory_fields)
qed

lemma handleLoss_result:
  assumes v: "validPuzzle cats" and i: "roundInv cats s"
  shows "roundInv cats (handleLoss (Some cats) s)"
    and "gameWords (handleLoss (Some cats) s) = []"
    and "clearedCategories (handleLoss (Some cats) s) =
           clearedCategories s @ remainingCategories cats s"
    and "isLost (handleLoss (Some cats) s)"
    and "isWon (handleLoss (Some cats) s) = isWon s"
    and "mistakesRemaining (handleLoss (Some cats) s) = mistakesRemaining s"
    and "guessHistory (handleLoss (Some cats) s) = guessHistory s"
proof -
  let ?rem = "remainingCategories cats s"
  let ?s1 = "deselectAllWords s"
  let ?s2 = "fold revealCategory ?rem ?s1"
  have h: "handleLoss (Some cats) s = ?s2\<lparr>isLost := True\<rparr>"
    by (simp add: handleLoss_def Let_def)
  have i1: "roundInv cats ?s1" by (rule roundInv_deselectAllWords [OF i])
  have r1: "remainingCategories cats ?s1 = ?rem"
    by (rule remaining_cong [OF deselectAllWords_frame(1)])
  have d: "distinct ?rem"
    using valid_distinct [OF v] by (simp add: remainingCategories_def)
  have "set ?rem \<subseteq> set (remainingCategories cats ?s1)" by (simp add: r1)
  from fold_revealCategory [OF v i1 this d]
  have f: "roundInv cats ?s2" "clearedCategories ?s2 = clearedCategories s @ ?rem"
    "remainingCategories cats ?s2 = []" "isWon ?s2 = isWon s"
    "mistakesRemaining ?s2 = mistakesRemaining s" "guessHistory ?s2 = guessHistory s"
    by (simp_all add: r1 deselectAllWords_frame)
  from roundInv_board [OF f(1)] f(3) have e: "gameWords ?s2 = []" by simp
  show "gameWords (handleLoss (Some cats) s) = []" using e by (simp add: h)
  show "clearedCategories (handleLoss (Some cats) s) = clearedCategories s @ ?rem"
    using f(2) by (simp add: h)
  show "isLost (handleLoss (Some cats) s)" by (simp add: h)
  show "isWon (handleLoss (Some cats) s) = isWon s" using f(4) by (simp add: h)
  show "mistakesRemaining (handleLoss (Some cats) s) = mistakesRemaining s"
    using f(5) by (simp add: h)
  show "guessHistory (handleLoss (Some cats) s) = guessHistory s" using f(6) by (simp add: h)
  show "roundInv cats (handleLoss (Some cats) s)"
    using f(1) e unfolding h roundInv_def
    by (simp add: selectedWords_def remainingCategories_def)
qed

subsection \<open>Every state of a round\<close>

lemma roundInv_handleSubmit:
  assumes v: "validPuzzle cats" and i: "roundInv cats s"
  shows "roundInv cats (handleSubmit l e (Some cats) s)"
proof (cases "controlsDisabled l e (Some cats) \<or> sameGuess s")
  case True
  then show ?thesis using i by (auto simp: handleSubmit_def getSubmitResult_cases)
next
  case False
  let ?s1 = "s\<lparr>guessHistory := guessHistory s @ [selectedWords s]\<rparr>"
  show ?thesis
  proof (cases "Math_max (likenessCounts cats s) = Some 4")
    case True
    let ?c = "cats ! nat (indexOf (map Some (likenessCounts cats s)) (Some 4))"
    have c: "?c \<in> set (remainingCategories cats ?s1)"
      using hit_category [OF v i True] by simp
    have i1: "roundInv cats ?s1" using i by simp
    have r: "roundInv cats (revealCategory ?c ?s1)"
      by (rule roundInv_revealCategory [OF v i1 c])
    show ?thesis
    proof (cases "length (clearedCategories s) = 3")
      case True
      then have "length (clearedCategories (revealCategory ?c ?s1)) = 4"
        by (simp add: revealCategory_fields)
      with board_empty_iff [OF v r] have "gameWords (revealCategory ?c ?s1) = []" by simp
      with r have "roundInv cats (handleWin (revealCategory ?c ?s1))"
        unfolding roundInv_def handleWin_def
        by (simp add: selectedWords_def remainingCategories_def)
      then show ?thesis
        using False True \<open>Math_max (likenessCounts cats s) = Some 4\<close>
        by (simp add: handleSubmit_def getSubmitResult_cases)
    next
      case False
      then show ?thesis
        using r \<open>\<not> (controlsDisabled l e (Some cats) \<or> sameGuess s)\<close> True
        by (simp add: handleSubmit_def getSubmitResult_cases)
    qed
  next
    case miss: False
    let ?s2 = "s\<lparr>guessHistory := guessHistory s @ [selectedWords s],
                  mistakesRemaining := mistakesRemaining s - 1\<rparr>"
    have i2: "roundInv cats ?s2" using i by simp
    have hl: "roundInv cats (handleLoss (Some cats)
        (s\<lparr>guessHistory := guessHistory s @ [selectedWords s], mistakesRemaining := m\<rparr>))" for m
      using i by (intro handleLoss_result(1) [OF v]) simp
    show ?thesis
      using False miss i2 hl
      by (simp add: handleSubmit_def getSubmitResult_cases)
  qed
qed

lemma roundInv_flags [simp]:
  "roundInv cats (s\<lparr>isLost := b\<rparr>) = roundInv cats s"
  "roundInv cats (s\<lparr>isWon := b\<rparr>) = roundInv cats s"
  by (simp_all add: roundInv_def selectedWords_def remainingCategories_def)

lemma roundInv_getSubmitResult:
  assumes v: "validPuzzle cats" and i: "roundInv cats s"
  shows "roundInv cats (snd (getSubmitResult (Some cats) s))"
proof (cases "sameGuess s")
  case True
  then show ?thesis using i by (simp add: getSubmitResult_cases)
next
  case False
  let ?s1 = "s\<lparr>guessHistory := guessHistory s @ [selectedWords s]\<rparr>"
  show ?thesis
  proof (cases "Math_max (likenessCounts cats s) = Some 4")
    case True
    let ?c = "cats ! nat (indexOf (map Some (likenessCounts cats s)) (Some 4))"
    have c: "?c \<in> set (remainingCategories cats ?s1)"
      using hit_category [OF v i True] by simp
    have i1: "roundInv cats ?s1" using i by simp
    have "roundInv cats (revealCategory ?c ?s1)"
      by (rule roundInv_revealCategory [OF v i1 c])
    then show ?thesis
      using False True by (simp add: getSubmitResult_cases)
  next
    case miss: False
    then show ?thesis
      using False i by (simp add: getSubmitResult_cases)
  qed
qed

lemma reachable_roundInv:
  assumes "validPuzzle cats" and "reachable cats s"
  shows "roundInv cats s"
  using assms(2)
proof (induction rule: reachable.induct)
  case (r_init sh s0)
  then show ?case by (intro roundInv_initialize assms(1))
next
  case (r_select s l e w)
  then show ?case by (simp add: onClickCell_def roundInv_selectWord)
next
  case (r_shuffle s sh)
  then show ?case by (intro roundInv_shuffleWords)
next
  case (r_deselect s)
  then show ?case by (intro roundInv_deselectAllWords)
next
  case (r_submit s l e)
  then show ?case by (intro roundInv_handleSubmit assms(1))
next
  case (r_result s)
  then show ?case by (intro roundInv_getSubmitResult assms(1))
next
  case (r_reveal s c)
  then show ?case by (intro roundInv_revealCategory assms(1))
next
  case (r_lost s)
  then show ?case by simp
next
  case (r_won s)
  then show ?case by (simp add: handleWin_def)
qed

subsection \<open>Objects and references\<close>

text \<open>
  \<open>mapAlloc\<close> gives new references to the objects it builds and keeps the others.
\<close>

lemma mapAlloc_refs:
  assumes "\<forall>x\<in>set xs. wref x < n" and "distinct (map wref xs)"
  shows "n \<le> snd (mapAlloc cb n xs) \<and>
         distinct (map wref (fst (mapAlloc cb n xs))) \<and>
         (\<forall>y\<in>set (fst (mapAlloc cb n xs)).
            wref y < snd (mapAlloc cb n xs) \<and> (y \<in> set xs \<or> n \<le> wref y))"
  using assms
proof (induction xs arbitrary: n)
  case Nil
  then show ?case by simp
next
  case (Cons item rest)
  show ?case
  proof (cases "cb item")
    case None
    have r: "\<forall>x\<in>set rest. wref x < n" "distinct (map wref rest)"
      using Cons.prems by simp_all
    note IH = Cons.IH [OF r]
    have i: "wref item < n" "wref item \<notin> wref ` set rest" using Cons.prems by simp_all
    have fresh: "wref item \<notin> wref ` set (fst (mapAlloc cb n rest))"
    proof
      assume "wref item \<in> wref ` set (fst (mapAlloc cb n rest))"
      then obtain y where y: "y \<in> set (fst (mapAlloc cb n rest))" "wref y = wref item" by auto
      with IH have "y \<in> set rest \<or> n \<le> wref y" by blast
      moreover have "y \<notin> set rest" using y(2) i(2) by (metis imageI)
      moreover have "\<not> n \<le> wref y" using y(2) i(1) by simp
      ultimately show False by blast
    qed
    have eq: "mapAlloc cb n (item # rest) =
        (item # fst (mapAlloc cb n rest), snd (mapAlloc cb n rest))"
      using None by (simp add: case_prod_unfold Let_def)
    show ?thesis
      unfolding eq using IH i fresh by auto
  next
    case (Some obj)
    have r: "\<forall>x\<in>set rest. wref x < Suc n" "distinct (map wref rest)"
      using Cons.prems by (simp_all add: less_Suc_eq)
    note IH = Cons.IH [OF r]
    have old: "\<forall>x\<in>set rest. wref x < n" using Cons.prems by simp
    have fresh: "n \<notin> wref ` set (fst (mapAlloc cb (Suc n) rest))"
    proof
      assume "n \<in> wref ` set (fst (mapAlloc cb (Suc n) rest))"
      then obtain y where y: "y \<in> set (fst (mapAlloc cb (Suc n) rest))" "wref y = n" by auto
      with IH have "y \<in> set rest \<or> Suc n \<le> wref y" by blast
      moreover have "y \<notin> set rest" using y(2) old by (metis less_irrefl)
      moreover have "\<not> Suc n \<le> wref y" using y(2) by simp
      ultimately show False by blast
    qed
    have eq: "mapAlloc cb n (item # rest) =
        (obj\<lparr>wref := n\<rparr> # fst (mapAlloc cb (Suc n) rest), snd (mapAlloc cb (Suc n) rest))"
      using Some by (simp add: case_prod_unfold Let_def)
    show ?thesis
      unfolding eq using IH fresh by auto
  qed
qed

lemma heapOk_mapAlloc:
  assumes "heapOk ws h n"
  shows "heapOk (fst (mapAlloc cb n ws)) h (snd (mapAlloc cb n ws))"
proof -
  from assms have a: "\<forall>x\<in>set ws. wref x < n" "distinct (map wref ws)"
    by (simp_all add: heapOk_def)
  note M = mapAlloc_refs [OF a, of cb]
  show ?thesis
    unfolding heapOk_def
  proof (intro conjI ballI impI)
    show "distinct (map wref (fst (mapAlloc cb n ws)))" using M by blast
  next
    fix x assume "x \<in> set (fst (mapAlloc cb n ws))"
    then show "wref x < snd (mapAlloc cb n ws)" using M by blast
  next
    fix g assume "g \<in> set h"
    then show "distinct (map wref g)" using assms by (simp add: heapOk_def)
  next
    fix g x assume "g \<in> set h" "x \<in> set g"
    then have "wref x < n" using assms by (simp add: heapOk_def)
    then show "wref x < snd (mapAlloc cb n ws)" using M by linarith
  next
    fix g x y
    assume g: "g \<in> set h" "x \<in> set g" and y: "y \<in> set (fst (mapAlloc cb n ws))"
      and e: "wref y = wref x"
    from g assms have x: "wref x < n" "\<forall>y\<in>set ws. wref y = wref x \<longrightarrow> y = x"
      by (simp_all add: heapOk_def)
    from M y have "y \<in> set ws \<or> n \<le> wref y" by blast
    with e x show "y = x" by force
  qed
qed

lemma heapOk_sub:
  assumes "heapOk ws h n" and "set ws' \<subseteq> set ws" and "distinct (map wref ws')"
  shows "heapOk ws' h n"
  using assms unfolding heapOk_def by (meson subsetD)

lemma heapOk_filter: "heapOk ws h n \<Longrightarrow> heapOk (filter P ws) h n"
  by (rule heapOk_sub) (auto simp: heapOk_def distinct_map_filter)

lemma heapOk_perm:
  assumes "heapOk ws h n" and "mset ws' = mset ws"
  shows "heapOk ws' h n"
proof -
  from assms(2) have "mset (map wref ws') = mset (map wref ws)" by simp
  then have "distinct (map wref ws') = distinct (map wref ws)"
    by (rule mset_eq_imp_distinct_iff)
  moreover have "set ws' = set ws" using assms(2) by (rule mset_eq_setD)
  ultimately show ?thesis using assms(1) by (intro heapOk_sub [OF assms(1)]) (simp_all add: heapOk_def)
qed

lemma heapOk_push:
  assumes "heapOk ws h n"
  shows "heapOk ws (h @ [filter P ws]) n"
proof -
  from assms have d: "distinct (map wref ws)" by (simp add: heapOk_def)
  then have inj: "inj_on wref (set ws)" by (simp add: distinct_map)
  have "\<forall>x\<in>set (filter P ws). \<forall>y\<in>set ws. wref y = wref x \<longrightarrow> y = x"
    using inj by (auto dest: inj_onD)
  then show ?thesis
    using assms d unfolding heapOk_def by (auto simp: distinct_map_filter)
qed


lemma puzzleWords_refs:
  "map wref (puzzleWords cats n) = map ((+) n) [0..<length (puzzleWords cats n)]"
proof -
  let ?xs = "concat (map (\<lambda>c. map (\<lambda>w. (w, Category.level c)) (items c)) cats)"
  have "map wref (puzzleWords cats n) = map (\<lambda>x. n + fst x) (enumerate 0 ?xs)"
    by (simp add: puzzleWords_def case_prod_unfold comp_def)
  also have "\<dots> = map ((+) n) (map fst (enumerate 0 ?xs))"
    by (simp only: map_map comp_def)
  also have "\<dots> = map ((+) n) [0..<length ?xs]"
    by (simp only: map_fst_enumerate) simp
  finally show ?thesis by (simp add: puzzleWords_def)
qed

lemma heapInv_initialize:
  assumes "cats \<noteq> []"
    and "mset (sh (puzzleWords cats (nextRef s0))) = mset (puzzleWords cats (nextRef s0))"
  shows "heapInv (initialize sh (Some cats) s0)"
proof -
  let ?n = "nextRef s0"
  let ?ws = "puzzleWords cats ?n"
  have d: "distinct (map wref ?ws)"
    by (simp add: puzzleWords_refs distinct_map)
  have b: "\<forall>x\<in>set ?ws. wref x < ?n + length ?ws"
  proof
    fix x assume "x \<in> set ?ws"
    then have "wref x \<in> set (map wref ?ws)" by simp
    then show "wref x < ?n + length ?ws"
      by (simp only: puzzleWords_refs) auto
  qed
  have "heapOk ?ws [] (?n + length ?ws)"
    using d b by (simp add: heapOk_def)
  then have "heapOk (sh ?ws) [] (?n + length ?ws)"
    using assms(2) by (rule heapOk_perm)
  then show ?thesis
    using assms(1) by (simp add: heapInv_def initialize_def)
qed

lemma heapInv_selectWord: "heapInv s \<Longrightarrow> heapInv (selectWord w s)"
  by (simp add: heapInv_def selectWord_def case_prod_unfold Let_def heapOk_mapAlloc)

lemma heapInv_deselectAllWords: "heapInv s \<Longrightarrow> heapInv (deselectAllWords s)"
  by (simp add: heapInv_def deselectAllWords_def case_prod_unfold Let_def heapOk_mapAlloc)

lemma heapInv_shuffleWords:
  "heapInv s \<Longrightarrow> mset (sh (gameWords s)) = mset (gameWords s) \<Longrightarrow> heapInv (shuffleWords sh s)"
  by (simp add: heapInv_def shuffleWords_def heapOk_perm)

lemma heapInv_revealCategory: "heapInv s \<Longrightarrow> heapInv (revealCategory c s)"
  by (simp add: heapInv_def revealCategory_def heapOk_filter)

lemma heapInv_fold_revealCategory: "heapInv s \<Longrightarrow> heapInv (fold revealCategory cs s)"
  by (induction cs arbitrary: s) (simp_all add: heapInv_revealCategory)

lemma heapInv_flags [simp]:
  "heapInv (s\<lparr>isLost := b\<rparr>) = heapInv s" "heapInv (s\<lparr>isWon := b\<rparr>) = heapInv s"
  "heapInv (s\<lparr>mistakesRemaining := m\<rparr>) = heapInv s"
  "heapInv (s\<lparr>clearedCategories := cs\<rparr>) = heapInv s"
  by (simp_all add: heapInv_def)

lemma heapInv_getSubmitResult:
  assumes "heapInv s"
  shows "heapInv (snd (getSubmitResult pc s))"
proof (cases pc)
  case None
  then show ?thesis using assms by (simp add: getSubmitResult_def)
next
  case (Some cats)
  have p: "heapInv (s\<lparr>guessHistory := guessHistory s @ [selectedWords s]\<rparr>)"
    using assms by (simp add: heapInv_def selectedWords_def heapOk_push)
  show ?thesis
    using assms p heapInv_revealCategory [OF p]
    by (simp add: Some getSubmitResult_def Let_def getCorrectResult_def getIncorrectResult_def
        revealCategory_def)
qed

lemma heapInv_handleLoss: "heapInv s \<Longrightarrow> heapInv (handleLoss pc s)"
  by (cases pc)
    (simp_all add: handleLoss_def Let_def heapInv_fold_revealCategory heapInv_deselectAllWords)

lemma heapInv_handleSubmit:
  assumes "heapInv s"
  shows "heapInv (handleSubmit l e pc s)"
proof (cases "controlsDisabled l e pc")
  case True
  then show ?thesis using assms by (simp add: handleSubmit_def)
next
  case False
  obtain r s' where g: "getSubmitResult pc s = (r, s')" by (cases "getSubmitResult pc s")
  from heapInv_getSubmitResult [OF assms, of pc] g have h: "heapInv s'" by simp
  show ?thesis
    using False g h by (cases r) (simp_all add: handleSubmit_def heapInv_handleLoss handleWin_def)
qed

lemma reachable_heapInv:
  assumes "reachable cats s"
  shows "heapInv s"
  using assms
proof (induction rule: reachable.induct)
  case (r_init sh s0)
  then show ?case by (rule heapInv_initialize)
next
  case (r_select s l e w)
  then show ?case by (simp add: onClickCell_def heapInv_selectWord)
next
  case (r_shuffle s sh)
  then show ?case by (intro heapInv_shuffleWords)
next
  case (r_deselect s)
  then show ?case by (intro heapInv_deselectAllWords)
next
  case (r_submit s l e)
  then show ?case by (intro heapInv_handleSubmit)
next
  case (r_result s)
  then show ?case by (intro heapInv_getSubmitResult)
next
  case (r_reveal s c)
  then show ?case by (intro heapInv_revealCategory)
next
  case (r_lost s)
  then show ?case by simp
next
  case (r_won s)
  then show ?case by (simp add: handleWin_def)
qed

text \<open>
  When every guess of the history has four words and four words are selected, the test of
  the code finds a repeat only where the specification has one: a guess all of whose
  objects are in the selection is the selection, as a set.
\<close>

lemma sameGuess_repeatedGuess:
  assumes h: "heapInv s" and f: "fourWordHistory s"
    and l: "length (selectedWords s) = 4" and g: "sameGuess s"
  shows "repeatedGuess s"
proof -
  let ?sel = "selectedWords s"
  from g obtain guess where gh: "guess \<in> set (guessHistory s)"
    and sub: "\<forall>w\<in>set guess. wref w \<in> wref ` set ?sel"
    by (auto simp: sameGuess_def list_ex_iff list_all_iff includesWord_def)
  from f gh have l4: "length guess = 4" by (simp add: fourWordHistory_def list_all_iff)
  from h gh have dg: "distinct (map wref guess)"
    and eq: "\<forall>x\<in>set guess. \<forall>y\<in>set (gameWords s). wref y = wref x \<longrightarrow> y = x"
    by (simp_all add: heapInv_def heapOk_def)
  have selsub: "set ?sel \<subseteq> set (gameWords s)" by (auto simp: selectedWords_def)
  have "card (wref ` set guess) = 4"
    using dg l4 distinct_card [of "map wref guess"] by simp
  moreover have "card (wref ` set ?sel) \<le> 4"
    using card_length [of "map wref ?sel"] l by simp
  moreover have "wref ` set guess \<subseteq> wref ` set ?sel" using sub by auto
  ultimately have refs: "wref ` set guess = wref ` set ?sel"
    by (intro card_seteq) simp_all
  have 1: "set guess \<subseteq> set ?sel"
  proof
    fix x assume x: "x \<in> set guess"
    with sub obtain y where y: "y \<in> set ?sel" "wref y = wref x" by force
    with selsub eq x have "y = x" by blast
    with y(1) show "x \<in> set ?sel" by simp
  qed
  have 2: "set ?sel \<subseteq> set guess"
  proof
    fix y assume y: "y \<in> set ?sel"
    then have "wref y \<in> wref ` set guess" using refs by blast
    then obtain x where x: "x \<in> set guess" "wref y = wref x" by auto
    with selsub eq y have "y = x" by blast
    with x(1) show "y \<in> set guess" by simp
  qed
  from 1 2 have "set guess = set ?sel" by blast
  then have "set (map word guess) = set (map word ?sel)" by simp
  with gh show ?thesis by (auto simp: repeatedGuess_def list_ex_iff)
qed

text \<open>
  Every guess of the history has four words as long as the engine is called with four
  words selected, which is when the page lets the Submit control be used: the history is
  empty at the start, a submission appends the selection, and nothing else touches it.
\<close>

lemma fourWordHistory_frame:
  "fourWordHistory (selectWord w s) = fourWordHistory s"
  "fourWordHistory (deselectAllWords s) = fourWordHistory s"
  "fourWordHistory (shuffleWords sh s) = fourWordHistory s"
  "fourWordHistory (revealCategory c s) = fourWordHistory s"
  "fourWordHistory (handleWin s) = fourWordHistory s"
  "fourWordHistory (s\<lparr>isLost := b\<rparr>) = fourWordHistory s"
  by (simp_all add: fourWordHistory_def selectWord_def deselectAllWords_def shuffleWords_def
      revealCategory_def handleWin_def case_prod_unfold Let_def)

lemma fourWordHistory_initialize:
  "cats \<noteq> [] \<Longrightarrow> fourWordHistory (initialize sh (Some cats) s0)"
  by (simp add: fourWordHistory_def initialize_def)

lemma fourWordHistory_getSubmitResult:
  assumes "fourWordHistory s" and "length (selectedWords s) = 4"
  shows "fourWordHistory (snd (getSubmitResult pc s))"
  using assms
  by (cases pc)
    (simp_all add: fourWordHistory_def getSubmitResult_def Let_def getCorrectResult_def
      getIncorrectResult_def)

subsection \<open>The concrete rounds\<close>

lemma valid_examplePuzzle: "validPuzzle examplePuzzle"
  by (simp add: validPuzzle_def examplePuzzle_def)

lemma reachable_round0: "reachable examplePuzzle round0"
  unfolding round0_def by (rule r_init) (simp_all add: examplePuzzle_def)

lemma reachable_click: "reachable examplePuzzle s \<Longrightarrow> reachable examplePuzzle (click w s)"
  unfolding click_def by (rule r_select)

lemma reachable_submit: "reachable examplePuzzle s \<Longrightarrow> reachable examplePuzzle (submit s)"
  unfolding submit_def by (rule r_submit)

lemmas reachable_example = reachable_click reachable_submit reachable_round0

lemma reachable_rounds:
  "reachable examplePuzzle round1" "reachable examplePuzzle round4"
  "reachable examplePuzzle (submit round4)" "reachable examplePuzzle roundAgain"
  "reachable examplePuzzle pick1" "reachable examplePuzzle pick4"
  by (simp_all add: round1_def round2_def round3_def round4_def roundAgain_def
      pick1_def pick2_def pick3_def pick4_def reachable_example)

lemma reachable_roundEmpty:
  "reachable examplePuzzle roundEmpty"
  "reachable examplePuzzle roundEmptyMiss" "reachable examplePuzzle roundEmptyHit"
proof -
  show e: "reachable examplePuzzle roundEmpty"
    unfolding roundEmpty_def by (intro r_result reachable_round0)
  show "reachable examplePuzzle roundEmptyMiss"
    unfolding roundEmptyMiss_def by (intro reachable_click e)
  show "reachable examplePuzzle roundEmptyHit"
    unfolding roundEmptyHit_def by (intro reachable_click e)
qed



section \<open>Lemmas on the puzzle route\<close>

lemma mapSet_keys: "fst ` set (mapSet k v m) = insert k (fst ` set m)"
  by (induction m) auto

lemma map_of_mapSet: "map_of (mapSet k v m) k' = (if k' = k then Some v else map_of m k')"
  by (induction m) auto

text \<open>A row changes the map only if its date has the shape of a date and is not after today.\<close>

lemma addRow_cases:
  "addRow js today header nrow m = m \<or>
   (isIsoDate (trim js (cell (snd nrow) (indexOf header ''date''))) \<and>
    trim js (cell (snd nrow) (indexOf header ''date'')) \<le> today \<and>
    (\<exists>c. cref c = fst nrow \<and>
       addRow js today header nrow m =
         mapSet (trim js (cell (snd nrow) (indexOf header ''date'')))
           ((case map_of m (trim js (cell (snd nrow) (indexOf header ''date''))) of
               None \<Rightarrow> [] | Some cs \<Rightarrow> cs) @ [c]) m))"
proof (cases "addRow js today header nrow m = m")
  case True
  then show ?thesis by simp
next
  case False
  let ?d = "trim js (cell (snd nrow) (indexOf header ''date''))"
  let ?items = "filter (\<lambda>w. w \<noteq> [])
      (map (\<lambda>c. normalizeWord js (cell (snd nrow) (indexOf header c)))
         [''word1'', ''word2'', ''word3'', ''word4''])"
  from False have iso: "isIsoDate ?d" and le: "\<not> today < ?d"
    by (auto simp: addRow_def Let_def split: if_splits)
  from le have le': "?d \<le> today" by (simp add: not_less)
  from False iso le obtain l where l: "Number js (trim js (cell (snd nrow) (indexOf header ''level''))) = Some l"
    by (cases "Number js (trim js (cell (snd nrow) (indexOf header ''level'')))")
      (auto simp: addRow_def Let_def)
  let ?c = "\<lparr>cref = fst nrow, category = trim js (cell (snd nrow) (indexOf header ''category'')),
      level = l, items = ?items\<rparr>"
  have "addRow js today header nrow m =
      mapSet ?d ((case map_of m ?d of None \<Rightarrow> [] | Some cs \<Rightarrow> cs) @ [?c]) m"
    using False iso le l by (simp add: addRow_def Let_def split: if_splits)
  moreover have "cref ?c = fst nrow" by simp
  ultimately have "\<exists>c. cref c = fst nrow \<and> addRow js today header nrow m =
      mapSet ?d ((case map_of m ?d of None \<Rightarrow> [] | Some cs \<Rightarrow> cs) @ [c]) m"
    by (intro exI [of _ ?c] conjI)
  with iso le' show ?thesis by blast
qed

lemma addRow_future:
  "today < trim js (cell (snd nrow) (indexOf header ''date'')) \<Longrightarrow>
   addRow js today header nrow m = m"
  by (simp add: addRow_def Let_def)

lemma datedOk_addRow:
  assumes "datedOk js today header R m"
  shows "datedOk js today header (insert nrow R) (addRow js today header nrow m)"
proof -
  from addRow_cases [of js today header nrow m] show ?thesis
  proof
    assume "addRow js today header nrow m = m"
    with assms show ?thesis by (auto simp: datedOk_def)
  next
    let ?d = "trim js (cell (snd nrow) (indexOf header ''date''))"
    assume "isIsoDate ?d \<and> ?d \<le> today \<and>
      (\<exists>c. cref c = fst nrow \<and> addRow js today header nrow m =
         mapSet ?d ((case map_of m ?d of None \<Rightarrow> [] | Some cs \<Rightarrow> cs) @ [c]) m)"
    then obtain c where iso: "isIsoDate ?d" and le: "?d \<le> today" and c: "cref c = fst nrow"
      and eq: "addRow js today header nrow m =
         mapSet ?d ((case map_of m ?d of None \<Rightarrow> [] | Some cs \<Rightarrow> cs) @ [c]) m"
      by auto
    show ?thesis
      unfolding datedOk_def eq map_of_mapSet
    proof (intro allI impI)
      fix k cs
      assume h: "(if k = ?d then Some ((case map_of m ?d of None \<Rightarrow> [] | Some cs \<Rightarrow> cs) @ [c])
                  else map_of m k) = Some cs"
      show "isIsoDate k \<and> k \<le> today \<and>
        (\<forall>c\<in>set cs. \<exists>nrow\<in>insert nrow R. cref c = fst nrow \<and>
           trim js (cell (snd nrow) (indexOf header ''date'')) = k)"
      proof (cases "k = ?d")
        case False
        with h have "map_of m k = Some cs" by simp
        with assms show ?thesis unfolding datedOk_def by fast
      next
        case True
        with h have cs: "cs = (case map_of m ?d of None \<Rightarrow> [] | Some cs \<Rightarrow> cs) @ [c]" by simp
        have old: "\<forall>x\<in>set (case map_of m ?d of None \<Rightarrow> [] | Some cs \<Rightarrow> cs).
            \<exists>nrow\<in>R. cref x = fst nrow \<and>
              trim js (cell (snd nrow) (indexOf header ''date'')) = ?d"
        proof (cases "map_of m ?d")
          case None
          then show ?thesis by simp
        next
          case (Some cs')
          with assms show ?thesis unfolding datedOk_def by fastforce
        qed
        show ?thesis using iso le c old by (auto simp: True cs)
      qed
    qed
  qed
qed

lemma datedOk_fold:
  "datedOk js today header R m \<Longrightarrow>
   datedOk js today header (R \<union> set rows) (fold (addRow js today header) rows m)"
proof (induction rows arbitrary: R m)
  case Nil
  then show ?case by simp
next
  case (Cons r rows)
  from Cons.IH [OF datedOk_addRow [OF Cons.prems, of r]] show ?case by simp
qed

lemma datedOk_puzzlesByDate:
  "datedOk js today (map (\<lambda>h. toLowerCase js (trim js h)) (hd values))
     (set (enumerate 1 (tl values))) (puzzlesByDate js today values)"
proof -
  have "datedOk js today (map (\<lambda>h. toLowerCase js (trim js h)) (hd values)) {} []"
    by (simp add: datedOk_def)
  from datedOk_fold [OF this, of "enumerate 1 (tl values)"] show ?thesis
    by (simp add: puzzlesByDate_def)
qed

lemma map_of_key: "k \<in> fst ` set m \<Longrightarrow> \<exists>v. map_of m k = Some v"
  by (metis domD dom_map_of_conv_image_fst)

lemma puzzlesByDate_keys:
  assumes "k \<in> fst ` set (puzzlesByDate js today values)"
  shows "isIsoDate k" and "k \<le> today"
proof -
  from map_of_key [OF assms] obtain cs where "map_of (puzzlesByDate js today values) k = Some cs"
    by blast
  with datedOk_puzzlesByDate [of js today "values"] show "isIsoDate k" and "k \<le> today"
    unfolding datedOk_def by blast+
qed

lemma availableDates_set: "set (availableDates m) = fst ` set m"
  by (simp add: availableDates_def)


lemma fromValues_Puzzle:
  assumes "fromValues js today dateParam requestedDate vals = Puzzle d t dates cats"
  shows "t = today \<and> dates = availableDates (puzzlesByDate js today vals) \<and>
         (\<exists>cs. map_of (puzzlesByDate js today vals) d = Some cs \<and>
               cats = sort_key Category.level cs)"
proof -
  let ?m = "puzzlesByDate js today vals"
  let ?cats = "sort_key Category.level (case map_of ?m d of None \<Rightarrow> [] | Some cs \<Rightarrow> cs)"
  from assms have r: "t = today" "dates = availableDates ?m" "cats = ?cats"
    and len: "length ?cats = 4"
    by (simp_all add: fromValues_def Let_def split: if_splits)
  from len obtain cs where cs: "map_of ?m d = Some cs"
    by (cases "map_of ?m d") auto
  then have "cats = sort_key Category.level cs" using r(3) by simp
  with cs r show ?thesis by blast
qed

lemma fromValues_Failure:
  assumes "fromValues js today dateParam requestedDate vals = Failure st e (Some (t, dates))"
  shows "t = today \<and> dates = availableDates (puzzlesByDate js today vals)"
  using assms by (simp add: fromValues_def Let_def split: if_splits)

lemma GET_fromValues:
  assumes "GET js req = r" and "\<forall>st e. r \<noteq> Failure st e None"
  shows "\<exists>dateParam requestedDate vals.
           sheet req = Inr (Some vals) \<and>
           r = fromValues js (todayNz req) dateParam requestedDate vals"
proof -
  from assms have f: "\<exists>dateParam requestedDate.
           r = fromValues js (todayNz req) dateParam requestedDate
                 (case sheet req of Inr (Some v) \<Rightarrow> v | _ \<Rightarrow> [])"
    by (auto simp: GET_def Let_def split: if_splits option.splits sum.splits)
  have "\<exists>vals. sheet req = Inr (Some vals)"
  proof (rule ccontr)
    assume "\<not> (\<exists>vals. sheet req = Inr (Some vals))"
    then have "(case sheet req of Inr (Some v) \<Rightarrow> v | _ \<Rightarrow> []) = []"
      by (auto split: sum.splits option.splits)
    with f have "r = Failure 500 SheetEmpty None" by (auto simp: fromValues_def)
    with assms(2) show False by simp
  qed
  then obtain vals where v: "sheet req = Inr (Some vals)" by blast
  from f obtain dp rd where "r = fromValues js (todayNz req) dp rd
      (case sheet req of Inr (Some v) \<Rightarrow> v | _ \<Rightarrow> [])"
    by blast
  with v have "r = fromValues js (todayNz req) dp rd vals" by simp
  with v show ?thesis by blast
qed

subsection \<open>The earlier handler\<close>

lemma addRow1_keys:
  "k \<in> fst ` set (addRow1 js today header row m) \<Longrightarrow>
   k \<in> fst ` set m \<or> isIsoDate k \<and> k \<le> today"
  by (auto simp: addRow1_def Let_def mapSet_keys not_less split: option.splits if_splits)

lemma fold_addRow1_keys:
  "k \<in> fst ` set (fold (addRow1 js today header) rows m) \<Longrightarrow>
   k \<in> fst ` set m \<or> isIsoDate k \<and> k \<le> today"
proof (induction rows arbitrary: m)
  case Nil
  then show ?case by simp
next
  case (Cons r rows)
  from Cons.IH [of "addRow1 js today header r m"] Cons.prems
  have "k \<in> fst ` set (addRow1 js today header r m) \<or> isIsoDate k \<and> k \<le> today"
    by simp
  then show ?case using addRow1_keys by blast
qed

lemma puzzles1_keys:
  "k \<in> fst ` set (puzzles1 js today rows) \<Longrightarrow> isIsoDate k \<and> k \<le> today"
  using fold_addRow1_keys [of k js today _ "tl rows" "[]"] by (simp add: puzzles1_def)

lemma addRow1_future:
  "cellOpt row (indexOf header ''date'') = Some date \<Longrightarrow> today < date \<Longrightarrow>
   addRow1 js today header row m = m"
  by (simp add: addRow1_def)

lemma GET1_Puzzle1:
  assumes "GET1 js req = Puzzle1 d t dates cats"
  shows "isIsoDate d \<and> d \<le> todayNz req \<and> t = todayNz req \<and>
         (\<exists>rows. sheet req = Inr (Some rows) \<and>
            dates = rev (sort (map fst (puzzles1 js (todayNz req) rows))) \<and>
            cats = map_of (puzzles1 js (todayNz req) rows) d)"
  using assms
  by (auto simp: GET1_def Let_def not_less split: if_splits option.splits sum.splits)

lemma GET_future:
  assumes "dateQuery req = Some q" and "todayNz req < trim js q"
  shows "GET js req =
           (if (case sheetsId req of None \<Rightarrow> True | Some sid \<Rightarrow> sid = [])
            then Failure 500 MissingSheetId None
            else if \<not> isIsoDate (trim js q) then Failure 400 InvalidDateFormat None
            else Failure 403 NotAvailableYet None)"
proof -
  from assms(2) have "trim js q \<noteq> []" by auto
  with assms show ?thesis by (simp add: GET_def Let_def)
qed

lemma GET1_future:
  assumes "dateQuery req = Some q" and "todayNz req < q"
  shows "GET1 js req =
           (if (case sheetsId req of None \<Rightarrow> True | Some sid \<Rightarrow> sid = [])
            then Failure1 500 MissingSheetId
            else Failure1 403 InvalidOrFutureDate)"
proof -
  from assms(2) have "q \<noteq> []" by auto
  with assms show ?thesis by (simp add: GET1_def Let_def)
qed


subsection \<open>The puzzle of a response is a valid puzzle\<close>

lemma addRow_built:
  "addRow js today header nrow m = m \<or>
   (\<exists>c d. cref c = fst nrow \<and> length (items c) = 4 \<and> Category.level c \<in> {1, 2, 3, 4} \<and>
       addRow js today header nrow m =
         mapSet d ((case map_of m d of None \<Rightarrow> [] | Some cs \<Rightarrow> cs) @ [c]) m)"
proof (cases "addRow js today header nrow m = m")
  case True
  then show ?thesis by simp
next
  case False
  let ?d = "trim js (cell (snd nrow) (indexOf header ''date''))"
  let ?items = "filter (\<lambda>w. w \<noteq> [])
      (map (\<lambda>c. normalizeWord js (cell (snd nrow) (indexOf header c)))
         [''word1'', ''word2'', ''word3'', ''word4''])"
  from False have iso: "isIsoDate ?d" and le: "\<not> today < ?d"
    by (auto simp: addRow_def Let_def split: if_splits)
  from False iso le obtain l
    where l: "Number js (trim js (cell (snd nrow) (indexOf header ''level''))) = Some l"
    by (cases "Number js (trim js (cell (snd nrow) (indexOf header ''level'')))")
      (auto simp: addRow_def Let_def)
  from False iso le l have lv: "l \<in> {1, 2, 3, 4}" and len: "length ?items = 4"
    by (auto simp: addRow_def Let_def split: if_splits)
  let ?c = "\<lparr>cref = fst nrow, category = trim js (cell (snd nrow) (indexOf header ''category'')),
      level = l, items = ?items\<rparr>"
  have "addRow js today header nrow m =
      mapSet ?d ((case map_of m ?d of None \<Rightarrow> [] | Some cs \<Rightarrow> cs) @ [?c]) m"
    using False iso le l by (simp add: addRow_def Let_def split: if_splits)
  moreover have "cref ?c = fst nrow" by simp
  moreover have "length (items ?c) = 4" using len by simp
  moreover have "Category.level ?c \<in> {1, 2, 3, 4}" using lv by simp
  ultimately have "\<exists>c d. cref c = fst nrow \<and> length (items c) = 4 \<and>
      Category.level c \<in> {1, 2, 3, 4} \<and>
      addRow js today header nrow m =
        mapSet d ((case map_of m d of None \<Rightarrow> [] | Some cs \<Rightarrow> cs) @ [c]) m"
    by (intro exI [of _ ?c] exI [of _ ?d] conjI)
  then show ?thesis by blast
qed

lemma built_addRow:
  assumes "\<forall>k cs. map_of m k = Some cs \<longrightarrow>
             distinct (map cref cs) \<and> cref ` set cs \<subseteq> N \<and>
             (\<forall>c\<in>set cs. length (items c) = 4 \<and> Category.level c \<in> {1, 2, 3, 4})"
    and "fst nrow \<notin> N"
  shows "\<forall>k cs. map_of (addRow js today header nrow m) k = Some cs \<longrightarrow>
             distinct (map cref cs) \<and> cref ` set cs \<subseteq> insert (fst nrow) N \<and>
             (\<forall>c\<in>set cs. length (items c) = 4 \<and> Category.level c \<in> {1, 2, 3, 4})"
proof -
  from addRow_built [of js today header nrow m] show ?thesis
  proof
    assume "addRow js today header nrow m = m"
    with assms(1) show ?thesis by fastforce
  next
    assume "\<exists>c d. cref c = fst nrow \<and> length (items c) = 4 \<and>
      Category.level c \<in> {1, 2, 3, 4} \<and>
      addRow js today header nrow m =
        mapSet d ((case map_of m d of None \<Rightarrow> [] | Some cs \<Rightarrow> cs) @ [c]) m"
    then obtain c d where c: "cref c = fst nrow" "length (items c) = 4"
        "Category.level c \<in> {1, 2, 3, 4}"
      and eq: "addRow js today header nrow m =
        mapSet d ((case map_of m d of None \<Rightarrow> [] | Some cs \<Rightarrow> cs) @ [c]) m"
      by auto
    let ?old = "case map_of m d of None \<Rightarrow> [] | Some cs \<Rightarrow> cs"
    have old: "distinct (map cref ?old) \<and> cref ` set ?old \<subseteq> N \<and>
             (\<forall>c\<in>set ?old. length (items c) = 4 \<and> Category.level c \<in> {1, 2, 3, 4})"
    proof (cases "map_of m d")
      case None
      then show ?thesis by simp
    next
      case (Some cs')
      with assms(1) show ?thesis by simp
    qed
    show ?thesis
      unfolding eq map_of_mapSet
    proof (intro allI impI)
      fix k cs
      assume h: "(if k = d then Some (?old @ [c]) else map_of m k) = Some cs"
      show "distinct (map cref cs) \<and> cref ` set cs \<subseteq> insert (fst nrow) N \<and>
             (\<forall>c\<in>set cs. length (items c) = 4 \<and> Category.level c \<in> {1, 2, 3, 4})"
      proof (cases "k = d")
        case False
        with h have "map_of m k = Some cs" by simp
        with assms(1) show ?thesis by fastforce
      next
        case True
        with h have cs: "cs = ?old @ [c]" by simp
        from old assms(2) c(1) have "cref c \<notin> cref ` set ?old" by auto
        with old c show ?thesis unfolding cs by auto
      qed
    qed
  qed
qed

lemma built_fold:
  "\<forall>k cs. map_of m k = Some cs \<longrightarrow>
      distinct (map cref cs) \<and> cref ` set cs \<subseteq> N \<and>
      (\<forall>c\<in>set cs. length (items c) = 4 \<and> Category.level c \<in> {1, 2, 3, 4}) \<Longrightarrow>
   distinct (map fst rows) \<Longrightarrow> N \<inter> fst ` set rows = {} \<Longrightarrow>
   \<forall>k cs. map_of (fold (addRow js today header) rows m) k = Some cs \<longrightarrow>
      distinct (map cref cs) \<and>
      (\<forall>c\<in>set cs. length (items c) = 4 \<and> Category.level c \<in> {1, 2, 3, 4})"
proof (induction rows arbitrary: m N)
  case Nil
  then show ?case by simp
next
  case (Cons r rows)
  from Cons.prems(3) have n: "fst r \<notin> N" by auto
  have 1: "\<forall>k cs. map_of (addRow js today header r m) k = Some cs \<longrightarrow>
             distinct (map cref cs) \<and> cref ` set cs \<subseteq> insert (fst r) N \<and>
             (\<forall>c\<in>set cs. length (items c) = 4 \<and> Category.level c \<in> {1, 2, 3, 4})"
    by (rule built_addRow [OF Cons.prems(1) n])
  have 2: "distinct (map fst rows)" using Cons.prems(2) by simp
  have 3: "insert (fst r) N \<inter> fst ` set rows = {}"
    using Cons.prems(2,3) by auto
  from Cons.IH [OF 1 2 3] show ?case by simp
qed

lemma built_puzzlesByDate:
  assumes "map_of (puzzlesByDate js today rows) k = Some cs"
  shows "distinct (map cref cs)"
    and "\<forall>c\<in>set cs. length (items c) = 4 \<and> Category.level c \<in> {1, 2, 3, 4}"
proof -
  have "\<forall>k cs. map_of (fold (addRow js today (map (\<lambda>h. toLowerCase js (trim js h)) (hd rows)))
        (enumerate 1 (tl rows)) []) k = Some cs \<longrightarrow>
      distinct (map cref cs) \<and>
      (\<forall>c\<in>set cs. length (items c) = 4 \<and> Category.level c \<in> {1, 2, 3, 4})"
    by (rule built_fold [where N = "{}"]) simp_all
  with assms show "distinct (map cref cs)"
    and "\<forall>c\<in>set cs. length (items c) = 4 \<and> Category.level c \<in> {1, 2, 3, 4}"
    by (simp_all add: puzzlesByDate_def)
qed

lemma remdups_full: "length (remdups xs) = length xs \<Longrightarrow> distinct xs"
  by (metis distinct_remdups length_remdups_eq)

text \<open>Every puzzle that the current handler serves passes \<open>validPuzzle\<close>.\<close>

lemma GET_validPuzzle:
  assumes "GET js req = Puzzle d t dates cats"
  shows "validPuzzle cats"
proof -
  from assms have "\<forall>st e. Puzzle d t dates cats \<noteq> Failure st e None" by simp
  from GET_fromValues [OF assms this] obtain dp rd vals
    where f: "fromValues js (todayNz req) dp rd vals = Puzzle d t dates cats"
    by auto
  let ?m = "puzzlesByDate js (todayNz req) vals"
  from fromValues_Puzzle [OF f] obtain cs
    where cs: "map_of ?m d = Some cs" and cats: "cats = sort_key Category.level cs"
    by blast
  from f cs cats have len: "length cats = 4"
    and lv: "length (remdups (map Category.level cats)) = 4"
    and ws: "length (remdups (concat (map items cats))) = 16"
    by (simp_all add: fromValues_def Let_def split: if_splits)
  note B = built_puzzlesByDate [OF cs]
  have 1: "distinct (map cref cats)"
    using B(1) by (simp add: cats distinct_map)
  have 2: "\<forall>c\<in>set cats. length (items c) = 4 \<and> Category.level c \<in> {1, 2, 3, 4}"
    using B(2) by (simp add: cats)
  have 3: "sorted (map Category.level cats)" by (simp add: cats)
  have 4: "distinct (map Category.level cats)"
    using lv len by (intro remdups_full) simp
  have "length (concat (map items cats)) = sum_list (map (\<lambda>c. 4) cats)"
    using 2 by (simp add: length_concat comp_def cong: map_cong)
  also have "\<dots> = 16" using len by (simp add: sum_list_triv)
  finally have 5: "distinct (concat (map items cats))"
    using ws by (intro remdups_full) simp
  show ?thesis
    unfolding validPuzzle_def using len 1 2 3 4 5 by (simp add: list_all_iff)
qed

section \<open>Properties of the round engine\<close>

subsection \<open>Submitting without a puzzle\<close>

text \<open>
  Claim C9. When \<open>getSubmitResult\<close> is called while no puzzle is loaded
  (\<open>puzzleCategories\<close> is null), it returns the tag "incorrect" and hands back the state
  as it was: guess history, mistakes remaining, cleared categories and board are unchanged.
\<close>

theorem getSubmitResult_no_puzzle: "getSubmitResult None s = (Incorrect, s)"
  by (simp add: getSubmitResult_def)

subsection \<open>Wrong guesses\<close>

lemma getSubmitResult_miss:
  assumes "\<not> sameGuess s" and "Math_max (likenessCounts cats s) \<noteq> Some 4"
  shows "getSubmitResult (Some cats) s =
           getIncorrectResult (Math_max (likenessCounts cats s))
             (s\<lparr>guessHistory := guessHistory s @ [selectedWords s]\<rparr>)"
  using assms by (simp add: getSubmitResult_def Let_def)

text \<open>
  Claim C3, as the code has it. In a round in which every guess submitted so far had four
  words: for every guess of four words whose set of words differs from that of every guess
  of the history, and whose maximum likeness is not 4 (in particular: is below 4), the
  mistakes remaining go down by exactly one; the result is Loss when they thereby reach 0,
  whatever the likeness; otherwise it is OneAway when the maximum likeness is exactly 3 and
  Incorrect in every other case.
\<close>

theorem miss_accounting:
  assumes r: "reachable cats s" and f: "fourWordHistory s"
    and l: "length (selectedWords s) = 4"
    and n: "\<not> repeatedGuess s"
    and m: "Math_max (likenessCounts cats s) \<noteq> Some 4"
  shows "mistakesRemaining (snd (getSubmitResult (Some cats) s)) = mistakesRemaining s - 1 \<and>
         fst (getSubmitResult (Some cats) s) =
           (if mistakesRemaining (snd (getSubmitResult (Some cats) s)) = 0 then Loss
            else if Math_max (likenessCounts cats s) = Some 3 then OneAway
            else Incorrect)"
proof -
  have "\<not> sameGuess s"
    using sameGuess_repeatedGuess [OF reachable_heapInv [OF r] f l] n by blast
  then show ?thesis
    using m by (simp add: getSubmitResult_miss getIncorrectResult_def)
qed

text \<open>
  The theorem at two states of the concrete round: the first guess (three fruits and RED,
  four mistakes left) is one away, the fourth (one mistake left) is the loss although it
  is three of four as well.
\<close>

theorem miss_accounting_witness:
  "reachable examplePuzzle round1 \<and> fourWordHistory round1 \<and>
   length (selectedWords round1) = 4 \<and> \<not> repeatedGuess round1 \<and>
   Math_max (likenessCounts examplePuzzle round1) = Some 3 \<and>
   mistakesRemaining round1 = 4 \<and>
   mistakesRemaining (snd (getSubmitResult (Some examplePuzzle) round1)) = 3 \<and>
   fst (getSubmitResult (Some examplePuzzle) round1) = OneAway \<and>
   reachable examplePuzzle round4 \<and> fourWordHistory round4 \<and>
   length (selectedWords round4) = 4 \<and> \<not> repeatedGuess round4 \<and>
   Math_max (likenessCounts examplePuzzle round4) = Some 3 \<and>
   mistakesRemaining round4 = 1 \<and>
   mistakesRemaining (snd (getSubmitResult (Some examplePuzzle) round4)) = 0 \<and>
   fst (getSubmitResult (Some examplePuzzle) round4) = Loss"
proof -
  have a0: "fourWordHistory round1" by code_simp
  have a1: "\<not> repeatedGuess round1" by code_simp
  have a2: "Math_max (likenessCounts examplePuzzle round1) = Some 3" by code_simp
  have a3: "mistakesRemaining round1 = 4" by code_simp
  have a4: "length (selectedWords round1) = 4" by code_simp
  have b0: "fourWordHistory round4" by code_simp
  have b1: "\<not> repeatedGuess round4" by code_simp
  have b2: "Math_max (likenessCounts examplePuzzle round4) = Some 3" by code_simp
  have b3: "mistakesRemaining round4 = 1" by code_simp
  have b4: "length (selectedWords round4) = 4" by code_simp
  have a: "Math_max (likenessCounts examplePuzzle round1) \<noteq> Some 4" using a2 by simp
  have b: "Math_max (likenessCounts examplePuzzle round4) \<noteq> Some 4" using b2 by simp
  note A = miss_accounting [OF reachable_rounds(1) a0 a4 a1 a]
  note B = miss_accounting [OF reachable_rounds(2) b0 b4 b1 b]
  from A a2 a3 have a5: "mistakesRemaining (snd (getSubmitResult (Some examplePuzzle) round1)) = 3"
    and a6: "fst (getSubmitResult (Some examplePuzzle) round1) = OneAway"
    by simp_all
  from B b2 b3 have b5: "mistakesRemaining (snd (getSubmitResult (Some examplePuzzle) round4)) = 0"
    and b6: "fst (getSubmitResult (Some examplePuzzle) round4) = Loss"
    by simp_all
  show ?thesis
    by (intro conjI) (fact reachable_rounds(1,2) a0 a1 a2 a3 a4 a5 a6 b0 b1 b2 b3 b4 b5 b6)+
qed

text \<open>
  Claim C3, as stated, fails after a guess of fewer than four words, which the engine
  accepts: the repeat test of the code asks whether every object of an earlier guess is in
  the selection, and that holds of the empty guess whatever is selected. In the concrete
  round the empty guess is on the history; three fruits and RED are selected, a guess of
  four words that was never made and is three of four; the result is Same and no mistake
  is counted.
\<close>

theorem miss_accounting_counterexample:
  "reachable examplePuzzle roundEmptyMiss \<and>
   guessHistory roundEmptyMiss = [[]] \<and>
   map word (selectedWords roundEmptyMiss) = [''APPLE'', ''PEAR'', ''PLUM'', ''RED''] \<and>
   \<not> repeatedGuess roundEmptyMiss \<and>
   Math_max (likenessCounts examplePuzzle roundEmptyMiss) = Some 3 \<and>
   mistakesRemaining roundEmptyMiss = 3 \<and>
   getSubmitResult (Some examplePuzzle) roundEmptyMiss = (Same, roundEmptyMiss) \<and>
   mistakesRemaining (snd (getSubmitResult (Some examplePuzzle) roundEmptyMiss)) = 3"
proof -
  have 1: "guessHistory roundEmptyMiss = [[]]" by code_simp
  have 2: "map word (selectedWords roundEmptyMiss) = [''APPLE'', ''PEAR'', ''PLUM'', ''RED'']"
    by code_simp
  have 3: "\<not> repeatedGuess roundEmptyMiss" by code_simp
  have 4: "Math_max (likenessCounts examplePuzzle roundEmptyMiss) = Some 3" by code_simp
  have 5: "mistakesRemaining roundEmptyMiss = 3" by code_simp
  have "sameGuess roundEmptyMiss" by (simp add: sameGuess_def 1)
  then have 6: "getSubmitResult (Some examplePuzzle) roundEmptyMiss = (Same, roundEmptyMiss)"
    by (simp add: getSubmitResult_cases)
  have 7: "mistakesRemaining (snd (getSubmitResult (Some examplePuzzle) roundEmptyMiss)) = 3"
    by (simp add: 6 5)
  show ?thesis
    by (intro conjI) (fact reachable_roundEmpty(2) 1 2 3 4 5 6 7)+
qed



subsection \<open>Submitting fewer than four words\<close>

lemma likeness_le: "x \<in> set (likenessCounts cats s) \<Longrightarrow> x \<le> length (selectedWords s)"
  by (auto simp: likenessCounts_def)

text \<open>
  Claim C1, as the code has it. \<open>getSubmitResult\<close> does not look at the size of the
  selection (the page keeps the Submit control from being used unless four words are
  selected). Called with fewer than four selected words it never touches the board or the
  cleared categories, and either returns Same with the state unchanged (some guess of the
  history has all its word objects in the selection), or appends the selection to the guess
  history, takes one from the mistakes remaining and returns Loss, OneAway or Incorrect.
\<close>

theorem short_selection_submitted:
  assumes "length (selectedWords s) < 4"
  shows "gameWords (snd (getSubmitResult (Some cats) s)) = gameWords s \<and>
         clearedCategories (snd (getSubmitResult (Some cats) s)) = clearedCategories s \<and>
         (if sameGuess s then getSubmitResult (Some cats) s = (Same, s)
          else
            guessHistory (snd (getSubmitResult (Some cats) s)) =
              guessHistory s @ [selectedWords s] \<and>
            mistakesRemaining (snd (getSubmitResult (Some cats) s)) = mistakesRemaining s - 1 \<and>
            fst (getSubmitResult (Some cats) s) =
              (if mistakesRemaining s = 1 then Loss
               else if Math_max (likenessCounts cats s) = Some 3 then OneAway
               else Incorrect))"
proof -
  have "Math_max (likenessCounts cats s) \<noteq> Some 4"
  proof
    assume "Math_max (likenessCounts cats s) = Some 4"
    then have "4 \<in> set (likenessCounts cats s)" by (rule Math_max_mem)
    then have "4 \<le> length (selectedWords s)" by (rule likeness_le)
    with assms show False by simp
  qed
  then show ?thesis by (simp add: getSubmitResult_cases)
qed

text \<open>
  Claim C1, as stated, fails: right after the round is initialised, with nothing selected,
  \<open>getSubmitResult\<close> is not rejected; it answers Incorrect, records the empty guess
  and leaves three mistakes.
\<close>

theorem short_selection_counterexample:
  "length (selectedWords round0) = 0 \<and>
   mistakesRemaining round0 = 4 \<and> guessHistory round0 = [] \<and>
   fst (getSubmitResult (Some examplePuzzle) round0) = Incorrect \<and>
   mistakesRemaining (snd (getSubmitResult (Some examplePuzzle) round0)) = 3 \<and>
   guessHistory (snd (getSubmitResult (Some examplePuzzle) round0)) = [[]] \<and>
   snd (getSubmitResult (Some examplePuzzle) round0) \<noteq> round0"
proof -
  have 1: "length (selectedWords round0) = 0" by code_simp
  have 2: "mistakesRemaining round0 = 4" by code_simp
  have 3: "guessHistory round0 = []" by code_simp
  have 4: "fst (getSubmitResult (Some examplePuzzle) round0) = Incorrect" by code_simp
  have 5: "mistakesRemaining (snd (getSubmitResult (Some examplePuzzle) round0)) = 3" by code_simp
  have 6: "guessHistory (snd (getSubmitResult (Some examplePuzzle) round0)) = [[]]" by code_simp
  from 2 5 have 7: "snd (getSubmitResult (Some examplePuzzle) round0) \<noteq> round0" by auto
  from 1 2 3 4 5 6 7 show ?thesis by blast
qed

text \<open>The theorem at the freshly initialised concrete round.\<close>

theorem short_selection_submitted_witness:
  "length (selectedWords round0) < 4 \<and> \<not> sameGuess round0 \<and>
   gameWords (snd (getSubmitResult (Some examplePuzzle) round0)) = gameWords round0 \<and>
   clearedCategories (snd (getSubmitResult (Some examplePuzzle) round0)) = [] \<and>
   guessHistory (snd (getSubmitResult (Some examplePuzzle) round0)) = [[]] \<and>
   mistakesRemaining (snd (getSubmitResult (Some examplePuzzle) round0)) = 3 \<and>
   fst (getSubmitResult (Some examplePuzzle) round0) = Incorrect"
proof -
  have 1: "length (selectedWords round0) < 4" by code_simp
  have 2: "\<not> sameGuess round0" by code_simp
  have 3: "mistakesRemaining round0 = 4" by code_simp
  have 4: "guessHistory round0 = []" by code_simp
  have 5: "selectedWords round0 = []" by code_simp
  have 6: "clearedCategories round0 = []" by code_simp
  have 7: "Math_max (likenessCounts examplePuzzle round0) = Some 0" by code_simp
  show ?thesis
    using short_selection_submitted [OF 1, of examplePuzzle] 1 2 3 4 5 6 7 by simp
qed

subsection \<open>Repeated guesses\<close>

text \<open>What the repeat check does detect: a guess of the history all of whose word objects are
  still selected.\<close>

lemma sameGuess_objects:
  assumes "guess \<in> set (guessHistory s)"
    and "set (map wref guess) \<subseteq> set (map wref (selectedWords s))"
  shows "getSubmitResult (Some cats) s = (Same, s)"
proof -
  have "list_all (\<lambda>w. includesWord (selectedWords s) w) guess"
    using assms(2) by (auto simp: list_all_iff includesWord_def)
  with assms(1) have "sameGuess s"
    by (auto simp: sameGuess_def list_ex_iff)
  then show ?thesis by (simp add: getSubmitResult_cases)
qed

text \<open>
  Claim C2 at a failing input. The first guess of the concrete round (APPLE, PEAR, PLUM,
  RED) is one away. RED is then deselected and selected again, which builds a new object
  for it, and the same four words are submitted: the repeat check compares objects, so the
  guess is not recognised; the result is OneAway again, a second mistake is counted and the
  guess is recorded a second time.
\<close>

theorem reselected_guess_not_same:
  "map word (selectedWords round1) = [''APPLE'', ''PEAR'', ''PLUM'', ''RED''] \<and>
   fst (getSubmitResult (Some examplePuzzle) round1) = OneAway \<and>
   map word (selectedWords roundAgain) = [''APPLE'', ''PEAR'', ''PLUM'', ''RED''] \<and>
   map (map word) (guessHistory roundAgain) = [[''APPLE'', ''PEAR'', ''PLUM'', ''RED'']] \<and>
   mistakesRemaining roundAgain = 3 \<and>
   fst (getSubmitResult (Some examplePuzzle) roundAgain) = OneAway \<and>
   mistakesRemaining (snd (getSubmitResult (Some examplePuzzle) roundAgain)) = 2 \<and>
   map (map word) (guessHistory (snd (getSubmitResult (Some examplePuzzle) roundAgain))) =
     [[''APPLE'', ''PEAR'', ''PLUM'', ''RED''], [''APPLE'', ''PEAR'', ''PLUM'', ''RED'']]"
proof -
  have 1: "map word (selectedWords round1) = [''APPLE'', ''PEAR'', ''PLUM'', ''RED'']"
    by code_simp
  have 2: "fst (getSubmitResult (Some examplePuzzle) round1) = OneAway" by code_simp
  have 3: "map word (selectedWords roundAgain) = [''APPLE'', ''PEAR'', ''PLUM'', ''RED'']"
    by code_simp
  have 4: "map (map word) (guessHistory roundAgain) = [[''APPLE'', ''PEAR'', ''PLUM'', ''RED'']]"
    by code_simp
  have 5: "mistakesRemaining roundAgain = 3" by code_simp
  have 6: "fst (getSubmitResult (Some examplePuzzle) roundAgain) = OneAway" by code_simp
  have 7: "mistakesRemaining (snd (getSubmitResult (Some examplePuzzle) roundAgain)) = 2"
    by code_simp
  have 8: "map (map word) (guessHistory (snd (getSubmitResult (Some examplePuzzle) roundAgain))) =
     [[''APPLE'', ''PEAR'', ''PLUM'', ''RED''], [''APPLE'', ''PEAR'', ''PLUM'', ''RED'']]"
    by code_simp
  from 1 2 3 4 5 6 7 8 show ?thesis by blast
qed

subsection \<open>Correct guesses\<close>

text \<open>
  Claim C4, as the code has it. In a round on a valid puzzle in which every guess submitted
  so far had four words: for every guess of four words whose set of words differs from that
  of every guess of the history, and whose words are exactly the items of a category of the
  puzzle, that category is appended to the cleared categories, its words are removed from
  the board, which shrinks by four, the mistakes remaining are unchanged, and the result is
  Correct, or Win if this is the fourth category cleared, which is exactly when the board
  becomes empty.
\<close>

theorem correct_guess:
  assumes v: "validPuzzle cats" and r: "reachable cats s"
    and f: "fourWordHistory s"
    and n': "\<not> repeatedGuess s"
    and c: "c \<in> set cats"
    and l: "length (selectedWords s) = 4"
    and m: "set (map word (selectedWords s)) = set (items c)"
  shows "clearedCategories (snd (getSubmitResult (Some cats) s)) = clearedCategories s @ [c] \<and>
         gameWords (snd (getSubmitResult (Some cats) s)) =
           filter (\<lambda>item. word item \<notin> set (items c)) (gameWords s) \<and>
         length (gameWords (snd (getSubmitResult (Some cats) s))) + 4 = length (gameWords s) \<and>
         mistakesRemaining (snd (getSubmitResult (Some cats) s)) = mistakesRemaining s \<and>
         fst (getSubmitResult (Some cats) s) =
           (if length (clearedCategories (snd (getSubmitResult (Some cats) s))) = 4 then Win
            else Correct) \<and>
         (fst (getSubmitResult (Some cats) s) = Win \<longleftrightarrow>
            gameWords (snd (getSubmitResult (Some cats) s)) = [])"
proof -
  let ?s1 = "s\<lparr>guessHistory := guessHistory s @ [selectedWords s]\<rparr>"
  let ?i = "nat (indexOf (map Some (likenessCounts cats s)) (Some 4))"
  have i: "roundInv cats s" by (rule reachable_roundInv [OF v r])
  have n: "\<not> sameGuess s"
    using sameGuess_repeatedGuess [OF reachable_heapInv [OF r] f l] n' by blast
  have all: "\<forall>x\<in>set (selectedWords s). word x \<in> set (items c)"
    using m by auto
  then have "filter (\<lambda>item. word item \<in> set (items c)) (selectedWords s) = selectedWords s"
    by (simp add: filter_id_conv)
  then have "length (filter (\<lambda>item. word item \<in> set (items c)) (selectedWords s)) = 4"
    using l by simp
  then have "4 \<in> set (likenessCounts cats s)"
    using c by (force simp: likenessCounts_def)
  moreover have "\<forall>x\<in>set (likenessCounts cats s). x \<le> 4"
    using likeness_le [of _ cats s] l by auto
  ultimately have mx: "Math_max (likenessCounts cats s) = Some 4"
    by (rule Math_max_eqI)
  have rem: "cats ! ?i \<in> set (remainingCategories cats s)"
    by (rule hit_category [OF v i mx])
  then have ci: "cats ! ?i \<in> set cats" by (simp add: remainingCategories_def)
  have "length (filter (\<lambda>item. word item \<in> set (items (cats ! ?i))) (selectedWords s)) = 4"
    using maxIndex_in_range(2,3) [OF mx] by (simp add: likenessCounts_def)
  then have "filter (\<lambda>item. word item \<in> set (items (cats ! ?i))) (selectedWords s) \<noteq> []"
    by auto
  then have "\<exists>x\<in>set (selectedWords s). word x \<in> set (items (cats ! ?i))"
    by (simp add: filter_empty_conv)
  then obtain x where x: "x \<in> set (selectedWords s)" "word x \<in> set (items (cats ! ?i))"
    by auto
  from all x(1) have "word x \<in> set (items c)" by simp
  from valid_category_of_word [OF v ci c x(2) this] have eq: "cats ! ?i = c" .
  have res: "getSubmitResult (Some cats) s =
      (if length (clearedCategories s) = 3 then Win else Correct, revealCategory c ?s1)"
    using n mx eq by (simp add: getSubmitResult_cases)
  have i1: "roundInv cats ?s1" using i by simp
  have c1: "c \<in> set (remainingCategories cats ?s1)" using rem eq by simp
  have i2: "roundInv cats (revealCategory c ?s1)"
    by (rule roundInv_revealCategory [OF v i1 c1])
  have b: "length (gameWords (revealCategory c ?s1)) + 4 = length (gameWords s)"
    using revealCategory_board [OF v i1 c1] by simp
  have e: "gameWords (revealCategory c ?s1) = [] \<longleftrightarrow> length (clearedCategories s) = 3"
    using board_empty_iff [OF v i2] by (simp add: revealCategory_fields)
  show ?thesis
    using b e by (simp add: res revealCategory_fields)
qed

text \<open>
  The theorem at the first and at the last guess of the round played without a mistake:
  Correct with twelve words left, then Win with an empty board.
\<close>

theorem correct_guess_witness:
  "validPuzzle examplePuzzle \<and>
   reachable examplePuzzle pick1 \<and> fourWordHistory pick1 \<and> \<not> repeatedGuess pick1 \<and>
   examplePuzzle ! 0 \<in> set examplePuzzle \<and>
   length (selectedWords pick1) = 4 \<and>
   set (map word (selectedWords pick1)) = set (items (examplePuzzle ! 0)) \<and>
   fst (getSubmitResult (Some examplePuzzle) pick1) = Correct \<and>
   length (gameWords pick1) = 16 \<and>
   reachable examplePuzzle pick4 \<and> fourWordHistory pick4 \<and> \<not> repeatedGuess pick4 \<and>
   examplePuzzle ! 3 \<in> set examplePuzzle \<and>
   length (selectedWords pick4) = 4 \<and>
   set (map word (selectedWords pick4)) = set (items (examplePuzzle ! 3)) \<and>
   fst (getSubmitResult (Some examplePuzzle) pick4) = Win \<and>
   length (gameWords pick4) = 4 \<and>
   clearedCategories (snd (getSubmitResult (Some examplePuzzle) pick1)) =
     clearedCategories pick1 @ [examplePuzzle ! 0] \<and>
   length (gameWords (snd (getSubmitResult (Some examplePuzzle) pick1))) + 4 =
     length (gameWords pick1) \<and>
   mistakesRemaining (snd (getSubmitResult (Some examplePuzzle) pick1)) =
     mistakesRemaining pick1 \<and>
   clearedCategories (snd (getSubmitResult (Some examplePuzzle) pick4)) =
     clearedCategories pick4 @ [examplePuzzle ! 3] \<and>
   length (gameWords (snd (getSubmitResult (Some examplePuzzle) pick4))) + 4 =
     length (gameWords pick4) \<and>
   mistakesRemaining (snd (getSubmitResult (Some examplePuzzle) pick4)) =
     mistakesRemaining pick4 \<and>
   gameWords (snd (getSubmitResult (Some examplePuzzle) pick4)) = []"
proof -
  have a0: "fourWordHistory pick1" by code_simp
  have a1: "\<not> repeatedGuess pick1" by code_simp
  have a2: "length (selectedWords pick1) = 4" by code_simp
  have a3: "set (map word (selectedWords pick1)) = set (items (examplePuzzle ! 0))" by code_simp
  have a4: "length (gameWords pick1) = 16" by code_simp
  have a5: "fst (getSubmitResult (Some examplePuzzle) pick1) = Correct" by code_simp
  have a7: "examplePuzzle ! 0 \<in> set examplePuzzle" by (simp add: examplePuzzle_def)
  have b0: "fourWordHistory pick4" by code_simp
  have b1: "\<not> repeatedGuess pick4" by code_simp
  have b2: "length (selectedWords pick4) = 4" by code_simp
  have b3: "set (map word (selectedWords pick4)) = set (items (examplePuzzle ! 3))" by code_simp
  have b4: "length (gameWords pick4) = 4" by code_simp
  have b5: "fst (getSubmitResult (Some examplePuzzle) pick4) = Win" by code_simp
  have b7: "examplePuzzle ! 3 \<in> set examplePuzzle" by (simp add: examplePuzzle_def)
  note A = correct_guess [OF valid_examplePuzzle reachable_rounds(5) a0 a1 a7 a2 a3]
  note B = correct_guess [OF valid_examplePuzzle reachable_rounds(6) b0 b1 b7 b2 b3]
  from B b5 have b8: "gameWords (snd (getSubmitResult (Some examplePuzzle) pick4)) = []"
    by blast
  show ?thesis
    using A B valid_examplePuzzle reachable_rounds(5,6) a0 a1 a2 a3 a4 a5 a7 b0 b1 b2 b3 b4 b5 b7 b8
    by blast
qed

text \<open>
  Claim C4, as stated, fails after a guess of fewer than four words, which the engine
  accepts. In the concrete round the empty guess is on the history and the four fruits are
  selected, a guess that was never made: the repeat test of the code holds of the empty
  guess, the result is Same, and nothing is cleared.
\<close>

theorem correct_guess_counterexample:
  "validPuzzle examplePuzzle \<and> reachable examplePuzzle roundEmptyHit \<and>
   guessHistory roundEmptyHit = [[]] \<and>
   map word (selectedWords roundEmptyHit) = [''APPLE'', ''PEAR'', ''PLUM'', ''KIWI''] \<and>
   set (map word (selectedWords roundEmptyHit)) = set (items (examplePuzzle ! 0)) \<and>
   \<not> repeatedGuess roundEmptyHit \<and>
   clearedCategories roundEmptyHit = [] \<and> length (gameWords roundEmptyHit) = 16 \<and>
   getSubmitResult (Some examplePuzzle) roundEmptyHit = (Same, roundEmptyHit) \<and>
   clearedCategories (snd (getSubmitResult (Some examplePuzzle) roundEmptyHit)) = [] \<and>
   length (gameWords (snd (getSubmitResult (Some examplePuzzle) roundEmptyHit))) = 16"
proof -
  have 1: "guessHistory roundEmptyHit = [[]]" by code_simp
  have 2: "map word (selectedWords roundEmptyHit) = [''APPLE'', ''PEAR'', ''PLUM'', ''KIWI'']"
    by code_simp
  have 3: "set (map word (selectedWords roundEmptyHit)) = set (items (examplePuzzle ! 0))"
    by code_simp
  have 4: "\<not> repeatedGuess roundEmptyHit" by code_simp
  have 5: "clearedCategories roundEmptyHit = []" by code_simp
  have 6: "length (gameWords roundEmptyHit) = 16" by code_simp
  have "sameGuess roundEmptyHit" by (simp add: sameGuess_def 1)
  then have 7: "getSubmitResult (Some examplePuzzle) roundEmptyHit = (Same, roundEmptyHit)"
    by (simp add: getSubmitResult_cases)
  have 8: "clearedCategories (snd (getSubmitResult (Some examplePuzzle) roundEmptyHit)) = []"
    by (simp add: 7 5)
  have 9: "length (gameWords (snd (getSubmitResult (Some examplePuzzle) roundEmptyHit))) = 16"
    by (simp add: 7 6)
  show ?thesis
    by (intro conjI) (fact valid_examplePuzzle reachable_roundEmpty(3) 1 2 3 4 5 6 7 8 9)+
qed

subsection \<open>The selection\<close>

lemma toggled_simps [simp]:
  "word (toggled s x) = word x" "Word.level (toggled s x) = Word.level x"
  "truthy (selected (toggled s x)) \<longleftrightarrow> length (selectedWords s) < 4 \<and> \<not> truthy (selected x)"
  by (simp_all add: toggled_def)

text \<open>The selection before and after a click on the tile \<open>x\<close>, the only one with its text.\<close>

lemma selection_split:
  assumes "gameWords s = pre @ x # post" and "word w = word x"
    and "\<forall>z\<in>set pre. word z \<noteq> word x" and "\<forall>z\<in>set post. word z \<noteq> word x"
  shows "selectedWords s =
           filter (\<lambda>i. truthy (selected i)) pre @ (if truthy (selected x) then [x] else []) @
           filter (\<lambda>i. truthy (selected i)) post"
    and "selectedWords (selectWord w s) =
           filter (\<lambda>i. truthy (selected i)) pre @
           (if length (selectedWords s) < 4 \<and> \<not> truthy (selected x) then [toggled s x] else []) @
           filter (\<lambda>i. truthy (selected i)) post"
    and "map shown (gameWords (selectWord w s)) =
           map shown pre @
           (word x, Word.level x, length (selectedWords s) < 4 \<and> \<not> truthy (selected x)) #
           map shown post"
    and "word w \<in> word ` set (selectedWords s) \<longleftrightarrow> truthy (selected x)"
    and "word w \<in> word ` set (selectedWords (selectWord w s)) \<longleftrightarrow>
           length (selectedWords s) < 4 \<and> \<not> truthy (selected x)"
proof -
  show sel: "selectedWords s =
           filter (\<lambda>i. truthy (selected i)) pre @ (if truthy (selected x) then [x] else []) @
           filter (\<lambda>i. truthy (selected i)) post"
    by (simp add: selectedWords_def assms(1))
  show sel': "selectedWords (selectWord w s) =
           filter (\<lambda>i. truthy (selected i)) pre @
           (if length (selectedWords s) < 4 \<and> \<not> truthy (selected x) then [toggled s x] else []) @
           filter (\<lambda>i. truthy (selected i)) post"
    by (simp add: selectWord_present [OF assms] selectedWords_def)
  show "map shown (gameWords (selectWord w s)) =
           map shown pre @
           (word x, Word.level x, length (selectedWords s) < 4 \<and> \<not> truthy (selected x)) #
           map shown post"
    by (simp add: selectWord_present [OF assms] shown_def)
  have n: "word w \<notin> word ` set (filter (\<lambda>i. truthy (selected i)) pre)"
    "word w \<notin> word ` set (filter (\<lambda>i. truthy (selected i)) post)"
    using assms(2-) by auto
  show "word w \<in> word ` set (selectedWords s) \<longleftrightarrow> truthy (selected x)"
    using n assms(2) by (cases "truthy (selected x)") (simp_all add: sel image_Un)
  show "word w \<in> word ` set (selectedWords (selectWord w s)) \<longleftrightarrow>
           length (selectedWords s) < 4 \<and> \<not> truthy (selected x)"
    using n assms(2)
    by (cases "length (selectedWords s) < 4 \<and> \<not> truthy (selected x)")
      (simp_all only: sel' if_True if_False set_append image_Un Un_iff, simp_all)
qed

lemma toggle_selected:
  assumes "distinct (map word (gameWords s))" and "word w \<in> word ` set (selectedWords s)"
  shows "word w \<notin> word ` set (selectedWords (selectWord w s))"
proof -
  from assms(2) obtain x where x: "x \<in> set (gameWords s)" "word w = word x"
    by (auto simp: selectedWords_def)
  from distinct_word_split [OF assms(1) x(1)] obtain pre post
    where sp: "gameWords s = pre @ x # post"
      "\<forall>z\<in>set pre. word z \<noteq> word x" "\<forall>z\<in>set post. word z \<noteq> word x"
    by blast
  from selection_split(4,5) [OF sp(1) x(2) sp(2,3)] assms(2) show ?thesis by simp
qed

lemma toggle_unselected:
  assumes "distinct (map word (gameWords s))" and "word w \<in> word ` set (gameWords s)"
    and "word w \<notin> word ` set (selectedWords s)" and "length (selectedWords s) < 4"
  shows "word w \<in> word ` set (selectedWords (selectWord w s))"
    and "length (selectedWords (selectWord w s)) = length (selectedWords s) + 1"
proof -
  from assms(2) obtain x where x: "x \<in> set (gameWords s)" "word w = word x"
    by auto
  from distinct_word_split [OF assms(1) x(1)] obtain pre post
    where sp: "gameWords s = pre @ x # post"
      "\<forall>z\<in>set pre. word z \<noteq> word x" "\<forall>z\<in>set post. word z \<noteq> word x"
    by blast
  note S = selection_split [OF sp(1) x(2) sp(2,3)]
  from S(4) assms(3) have u: "\<not> truthy (selected x)" by simp
  show "word w \<in> word ` set (selectedWords (selectWord w s))"
    using S(5) u assms(4) by simp
  show "length (selectedWords (selectWord w s)) = length (selectedWords s) + 1"
    using u assms(4) by (simp add: S(1) S(2) [unfolded S(1)])
qed

lemma toggle_fifth:
  assumes "distinct (map word (gameWords s))"
    and "word w \<notin> word ` set (selectedWords s)" and "\<not> length (selectedWords s) < 4"
  shows "selectedWords (selectWord w s) = selectedWords s"
    and "map shown (gameWords (selectWord w s)) = map shown (gameWords s)"
proof -
  have "selectedWords (selectWord w s) = selectedWords s \<and>
        map shown (gameWords (selectWord w s)) = map shown (gameWords s)"
  proof (cases "word w \<in> word ` set (gameWords s)")
    case False
    then show ?thesis by (simp add: selectWord_absent)
  next
    case True
    then obtain x where x: "x \<in> set (gameWords s)" "word w = word x"
      by auto
    from distinct_word_split [OF assms(1) x(1)] obtain pre post
      where sp: "gameWords s = pre @ x # post"
        "\<forall>z\<in>set pre. word z \<noteq> word x" "\<forall>z\<in>set post. word z \<noteq> word x"
      by blast
    note S = selection_split [OF sp(1) x(2) sp(2,3)]
    from S(4) assms(2) have u: "\<not> truthy (selected x)" by simp
    have "selectedWords (selectWord w s) = selectedWords s"
      using u assms(3) S(1) S(2) by simp
    moreover have "map shown (gameWords (selectWord w s)) = map shown (gameWords s)"
      using u assms(3) S(3) by (simp add: sp(1) shown_def)
    ultimately show ?thesis by simp
  qed
  then show "selectedWords (selectWord w s) = selectedWords s"
    and "map shown (gameWords (selectWord w s)) = map shown (gameWords s)"
    by simp_all
qed

lemma toggle_twice:
  assumes d: "distinct (map word (gameWords s))"
    and u: "word w \<notin> word ` set (selectedWords s)"
  shows "word w \<notin> word ` set (selectedWords (selectWord w (selectWord w s)))"
proof -
  let ?s = "selectWord w s"
  have d': "distinct (map word (gameWords ?s))"
    using d by (simp add: selectWord_words)
  show ?thesis
  proof (cases "word w \<in> word ` set (selectedWords ?s)")
    case True
    then show ?thesis by (rule toggle_selected [OF d'])
  next
    case False
    show ?thesis
    proof (cases "word w \<in> word ` set (gameWords s)")
      case absent: False
      then have "selectWord w s = s" by (rule selectWord_absent)
      with u show ?thesis by simp
    next
      case True
      have full: "\<not> length (selectedWords s) < 4"
        using toggle_unselected(1) [OF d True u] False by blast
      from toggle_fifth(1) [OF d u full] full
      have "\<not> length (selectedWords ?s) < 4" by simp
      from toggle_fifth(1) [OF d' False this] False show ?thesis by simp
    qed
  qed
qed


text \<open>
  Claim C5. In every state of a round on a valid puzzle the selection has between 0 and 4
  words. A click on a word that is selected always deselects it; a click on a word of the
  board that is not selected selects it while fewer than four are selected; so two clicks
  in a row on a word that was not selected leave it not selected. A click on a word that is
  not selected while four words are selected changes nothing: the selection is the same
  list of objects, every tile shows what it showed, and no other part of the state moves.
\<close>

theorem selection_at_most_four:
  assumes v: "validPuzzle cats" and r: "reachable cats s"
  shows "length (selectedWords s) \<le> 4 \<and>
    (word w \<in> word ` set (selectedWords s) \<longrightarrow>
       word w \<notin> word ` set (selectedWords (selectWord w s))) \<and>
    (word w \<in> word ` set (gameWords s) \<and> word w \<notin> word ` set (selectedWords s) \<and>
     length (selectedWords s) < 4 \<longrightarrow>
       word w \<in> word ` set (selectedWords (selectWord w s)) \<and>
       length (selectedWords (selectWord w s)) = length (selectedWords s) + 1) \<and>
    (word w \<notin> word ` set (selectedWords s) \<longrightarrow>
       word w \<notin> word ` set (selectedWords (selectWord w (selectWord w s)))) \<and>
    (word w \<notin> word ` set (selectedWords s) \<and> length (selectedWords s) = 4 \<longrightarrow>
       selectedWords (selectWord w s) = selectedWords s \<and>
       map shown (gameWords (selectWord w s)) = map shown (gameWords s) \<and>
       clearedCategories (selectWord w s) = clearedCategories s \<and>
       mistakesRemaining (selectWord w s) = mistakesRemaining s \<and>
       guessHistory (selectWord w s) = guessHistory s \<and>
       isWon (selectWord w s) = isWon s \<and> isLost (selectWord w s) = isLost s)"
proof -
  have i: "roundInv cats s" by (rule reachable_roundInv [OF v r])
  then have d: "distinct (map word (gameWords s))" and b: "length (selectedWords s) \<le> 4"
    by (simp_all add: roundInv_def)
  have 1: "word w \<in> word ` set (selectedWords s) \<longrightarrow>
       word w \<notin> word ` set (selectedWords (selectWord w s))"
    using toggle_selected [OF d] by blast
  have 2: "word w \<in> word ` set (gameWords s) \<and> word w \<notin> word ` set (selectedWords s) \<and>
     length (selectedWords s) < 4 \<longrightarrow>
       word w \<in> word ` set (selectedWords (selectWord w s)) \<and>
       length (selectedWords (selectWord w s)) = length (selectedWords s) + 1"
    using toggle_unselected [OF d] by blast
  have 3: "word w \<notin> word ` set (selectedWords s) \<longrightarrow>
       word w \<notin> word ` set (selectedWords (selectWord w (selectWord w s)))"
    using toggle_twice [OF d] by blast
  have 4: "word w \<notin> word ` set (selectedWords s) \<and> length (selectedWords s) = 4 \<longrightarrow>
       selectedWords (selectWord w s) = selectedWords s \<and>
       map shown (gameWords (selectWord w s)) = map shown (gameWords s) \<and>
       clearedCategories (selectWord w s) = clearedCategories s \<and>
       mistakesRemaining (selectWord w s) = mistakesRemaining s \<and>
       guessHistory (selectWord w s) = guessHistory s \<and>
       isWon (selectWord w s) = isWon s \<and> isLost (selectWord w s) = isLost s"
    using toggle_fifth [OF d, of w] by (simp add: selectWord_frame)
  show ?thesis
    by (intro conjI) (fact b 1 2 3 4)+
qed

text \<open>
  The theorem in the concrete round: with four words selected, a click on APPLE deselects
  it and a click on KIWI, a fifth word, changes nothing; in the fresh round a click on KIWI
  selects it and a second click deselects it.
\<close>

theorem selection_at_most_four_witness:
  "validPuzzle examplePuzzle \<and> reachable examplePuzzle round1 \<and>
   length (selectedWords round1) = 4 \<and>
   word (tile ''APPLE'') \<in> word ` set (selectedWords round1) \<and>
   word (tile ''APPLE'') \<notin> word ` set (selectedWords (selectWord (tile ''APPLE'') round1)) \<and>
   word (tile ''KIWI'') \<notin> word ` set (selectedWords round1) \<and>
   selectedWords (selectWord (tile ''KIWI'') round1) = selectedWords round1 \<and>
   map shown (gameWords (selectWord (tile ''KIWI'') round1)) = map shown (gameWords round1) \<and>
   word (tile ''KIWI'') \<notin>
     word ` set (selectedWords (selectWord (tile ''KIWI'') (selectWord (tile ''KIWI'') round1))) \<and>
   reachable examplePuzzle round0 \<and> length (selectedWords round0) = 0 \<and>
   word (tile ''KIWI'') \<in> word ` set (gameWords round0) \<and>
   word (tile ''KIWI'') \<notin> word ` set (selectedWords round0) \<and>
   word (tile ''KIWI'') \<in> word ` set (selectedWords (selectWord (tile ''KIWI'') round0)) \<and>
   word (tile ''KIWI'') \<notin>
     word ` set (selectedWords (selectWord (tile ''KIWI'') (selectWord (tile ''KIWI'') round0)))"
proof -
  have a1: "length (selectedWords round1) = 4" by code_simp
  have a2: "word (tile ''APPLE'') \<in> word ` set (selectedWords round1)" by code_simp
  have a3: "word (tile ''KIWI'') \<notin> word ` set (selectedWords round1)" by code_simp
  have b1: "length (selectedWords round0) = 0" by code_simp
  have b2: "word (tile ''KIWI'') \<in> word ` set (gameWords round0)" by code_simp
  have b3: "word (tile ''KIWI'') \<notin> word ` set (selectedWords round0)" by code_simp
  note A = selection_at_most_four [OF valid_examplePuzzle reachable_rounds(1), of "tile ''APPLE''"]
  note K = selection_at_most_four [OF valid_examplePuzzle reachable_rounds(1), of "tile ''KIWI''"]
  note Z = selection_at_most_four [OF valid_examplePuzzle reachable_round0, of "tile ''KIWI''"]
  from b1 have b4: "length (selectedWords round0) < 4" by simp
  from A a2 have c1:
    "word (tile ''APPLE'') \<notin> word ` set (selectedWords (selectWord (tile ''APPLE'') round1))"
    by simp
  from K a1 a3 have c2: "selectedWords (selectWord (tile ''KIWI'') round1) = selectedWords round1"
    and c3: "map shown (gameWords (selectWord (tile ''KIWI'') round1)) = map shown (gameWords round1)"
    and c4: "word (tile ''KIWI'') \<notin>
     word ` set (selectedWords (selectWord (tile ''KIWI'') (selectWord (tile ''KIWI'') round1)))"
    by simp_all
  from Z b2 b3 b4 have c5:
    "word (tile ''KIWI'') \<in> word ` set (selectedWords (selectWord (tile ''KIWI'') round0))"
    and c6: "word (tile ''KIWI'') \<notin>
     word ` set (selectedWords (selectWord (tile ''KIWI'') (selectWord (tile ''KIWI'') round0)))"
    by simp_all
  show ?thesis
    by (intro conjI) (fact valid_examplePuzzle reachable_rounds(1) reachable_round0
        a1 a2 a3 b1 b2 b3 c1 c2 c3 c4 c5 c6)+
qed

subsection \<open>Clicks when the round is over\<close>

text \<open>
  \<open>selectWord\<close> does not look at the outcome of the round; what it leaves alone is the
  empty board.
\<close>

lemma selectWord_empty: "gameWords s = [] \<Longrightarrow> selectWord w s = s"
  by (simp add: selectWord_absent)

text \<open>
  Claim C6 at a failing input. The fourth wrong guess of the concrete round returns Loss
  with no mistake left: the round is lost. \<open>handleLoss\<close> deselects all words and waits
  a second before its first reveal; \<open>isLost\<close> is not set yet and the sixteen words are
  still on the board. Shuffle, Deselect All and Submit are unclickable during that time,
  since \<^verbatim>\<open>submitted\<close> is set (page.tsx, lines 150 to 164), but \<open>onClickCell\<close>
  (lines 131 to 137) tests \<open>controlsDisabled\<close> only: a click on APPLE goes through to
  \<open>selectWord\<close> and selects it.
\<close>

theorem toggle_during_reveal:
  "reachable examplePuzzle round4 \<and>
   getSubmitResult (Some examplePuzzle) round4 = (Loss, roundLost) \<and>
   roundReveal = deselectAllWords roundLost \<and>
   reachable examplePuzzle roundReveal \<and>
   mistakesRemaining roundReveal = 0 \<and>
   length (gameWords roundReveal) = 16 \<and>
   map word (selectedWords roundReveal) = [] \<and>
   map word (selectedWords (onClickCell False None (Some examplePuzzle) (tile ''APPLE'') roundReveal))
     = [''APPLE''] \<and>
   onClickCell False None (Some examplePuzzle) (tile ''APPLE'') roundReveal \<noteq> roundReveal"
proof -
  have "fst (getSubmitResult (Some examplePuzzle) round4) = Loss" by code_simp
  then have 1: "getSubmitResult (Some examplePuzzle) round4 = (Loss, roundLost)"
    by (simp add: roundLost_def prod_eq_iff)
  have 2: "mistakesRemaining roundReveal = 0" by code_simp
  have 3: "map word (selectedWords roundReveal) = []" by code_simp
  have 4: "map word (selectedWords
      (onClickCell False None (Some examplePuzzle) (tile ''APPLE'') roundReveal)) = [''APPLE'']"
    by code_simp
  from 3 4 have 5:
    "onClickCell False None (Some examplePuzzle) (tile ''APPLE'') roundReveal \<noteq> roundReveal"
    by auto
  have 6: "length (gameWords roundReveal) = 16" by code_simp
  have 7: "reachable examplePuzzle roundReveal"
    unfolding roundReveal_def roundLost_def
    by (intro r_deselect r_result reachable_rounds(2))
  show ?thesis
    by (intro conjI) (fact reachable_rounds(2) 1 roundReveal_def 2 3 4 5 6 7)+
qed

subsection \<open>The reveal after a loss\<close>




section \<open>Properties of the puzzle route\<close>

text \<open>
  Claim C8. Neither handler ever answers with a puzzle dated later than today in
  Pacific/Auckland. For the current handler: the date of a puzzle response has the shape
  of a date and is not after \<open>todayNz\<close>, every category of the response was built from a
  row of the sheet that bears this date, and no date of \<^verbatim>\<open>availableDates\<close> is after
  \<open>todayNz\<close>, in a puzzle response and in an error response alike; a requested date after
  \<open>todayNz\<close> is answered with an error (403, unless the sheet id is missing, 500, or the
  date is malformed, 400); a row dated after today leaves the puzzle map as it is, and
  every key of the map is a date not after today. The same holds for the earlier handler,
  which answers a future date with 403.
\<close>

theorem never_a_future_puzzle:
  "(GET js req = Puzzle d t dates cats \<longrightarrow>
      isIsoDate d \<and> d \<le> todayNz req \<and> (\<forall>a\<in>set dates. a \<le> todayNz req) \<and>
      (\<exists>vals. sheet req = Inr (Some vals) \<and>
         (\<forall>c\<in>set cats. \<exists>nrow\<in>set (enumerate 1 (tl vals)). cref c = fst nrow \<and>
            trim js (cell (snd nrow)
              (indexOf (map (\<lambda>h. toLowerCase js (trim js h)) (hd vals)) ''date'')) = d))) \<and>
   (GET js req = Failure st e (Some (t', dates')) \<longrightarrow> (\<forall>a\<in>set dates'. a \<le> todayNz req)) \<and>
   (dateQuery req = Some q \<and> todayNz req < trim js q \<longrightarrow>
      GET js req =
        (if (case sheetsId req of None \<Rightarrow> True | Some sid \<Rightarrow> sid = [])
         then Failure 500 MissingSheetId None
         else if \<not> isIsoDate (trim js q) then Failure 400 InvalidDateFormat None
         else Failure 403 NotAvailableYet None)) \<and>
   (today < trim js (cell (snd nrow) (indexOf header ''date'')) \<longrightarrow>
      addRow js today header nrow m = m) \<and>
   (\<forall>k\<in>fst ` set (puzzlesByDate js today rows). isIsoDate k \<and> k \<le> today) \<and>
   (GET1 js req = Puzzle1 d1 t1 dates1 cats1 \<longrightarrow>
      isIsoDate d1 \<and> d1 \<le> todayNz req \<and> (\<forall>a\<in>set dates1. a \<le> todayNz req)) \<and>
   (dateQuery req = Some q \<and> todayNz req < q \<longrightarrow>
      GET1 js req =
        (if (case sheetsId req of None \<Rightarrow> True | Some sid \<Rightarrow> sid = [])
         then Failure1 500 MissingSheetId
         else Failure1 403 InvalidOrFutureDate)) \<and>
   (cellOpt row (indexOf header ''date'') = Some date \<and> today < date \<longrightarrow>
      addRow1 js today header row m1 = m1) \<and>
   (\<forall>k\<in>fst ` set (puzzles1 js today rows). isIsoDate k \<and> k \<le> today)"
proof -
  have 1: "GET js req = Puzzle d t dates cats \<longrightarrow>
      isIsoDate d \<and> d \<le> todayNz req \<and> (\<forall>a\<in>set dates. a \<le> todayNz req) \<and>
      (\<exists>vals. sheet req = Inr (Some vals) \<and>
         (\<forall>c\<in>set cats. \<exists>nrow\<in>set (enumerate 1 (tl vals)). cref c = fst nrow \<and>
            trim js (cell (snd nrow)
              (indexOf (map (\<lambda>h. toLowerCase js (trim js h)) (hd vals)) ''date'')) = d))"
  proof
    assume g: "GET js req = Puzzle d t dates cats"
    then have "\<forall>st e. Puzzle d t dates cats \<noteq> Failure st e None" by simp
    from GET_fromValues [OF g this] obtain dp rd vals
      where v: "sheet req = Inr (Some vals)"
        and f: "fromValues js (todayNz req) dp rd vals = Puzzle d t dates cats"
      by auto
    let ?m = "puzzlesByDate js (todayNz req) vals"
    from fromValues_Puzzle [OF f] obtain cs
      where dt: "dates = availableDates ?m" and cs: "map_of ?m d = Some cs"
        and cats: "cats = sort_key Category.level cs"
      by blast
    from datedOk_puzzlesByDate [of js "todayNz req" vals] cs
    have ok: "isIsoDate d" "d \<le> todayNz req"
      "\<forall>c\<in>set cs. \<exists>nrow\<in>set (enumerate 1 (tl vals)). cref c = fst nrow \<and>
         trim js (cell (snd nrow)
           (indexOf (map (\<lambda>h. toLowerCase js (trim js h)) (hd vals)) ''date'')) = d"
      unfolding datedOk_def by blast+
    have a: "\<forall>a\<in>set dates. a \<le> todayNz req"
      using puzzlesByDate_keys(2) [of _ js "todayNz req" vals]
      by (simp add: dt availableDates_set)
    from ok(3) have "\<forall>c\<in>set cats. \<exists>nrow\<in>set (enumerate 1 (tl vals)). cref c = fst nrow \<and>
         trim js (cell (snd nrow)
           (indexOf (map (\<lambda>h. toLowerCase js (trim js h)) (hd vals)) ''date'')) = d"
      by (simp add: cats)
    with v ok(1,2) a
    show "isIsoDate d \<and> d \<le> todayNz req \<and> (\<forall>a\<in>set dates. a \<le> todayNz req) \<and>
      (\<exists>vals. sheet req = Inr (Some vals) \<and>
         (\<forall>c\<in>set cats. \<exists>nrow\<in>set (enumerate 1 (tl vals)). cref c = fst nrow \<and>
            trim js (cell (snd nrow)
              (indexOf (map (\<lambda>h. toLowerCase js (trim js h)) (hd vals)) ''date'')) = d))"
      by blast
  qed
  have 2: "GET js req = Failure st e (Some (t', dates')) \<longrightarrow>
      (\<forall>a\<in>set dates'. a \<le> todayNz req)"
  proof
    assume g: "GET js req = Failure st e (Some (t', dates'))"
    then have "\<forall>st' e'. Failure st e (Some (t', dates')) \<noteq> Failure st' e' None" by simp
    from GET_fromValues [OF g this] obtain dp rd vals
      where f: "fromValues js (todayNz req) dp rd vals = Failure st e (Some (t', dates'))"
      by auto
    from fromValues_Failure [OF f]
    have "dates' = availableDates (puzzlesByDate js (todayNz req) vals)" by simp
    then show "\<forall>a\<in>set dates'. a \<le> todayNz req"
      using puzzlesByDate_keys(2) [of _ js "todayNz req" vals]
      by (simp add: availableDates_set)
  qed
  have 3: "dateQuery req = Some q \<and> todayNz req < trim js q \<longrightarrow>
      GET js req =
        (if (case sheetsId req of None \<Rightarrow> True | Some sid \<Rightarrow> sid = [])
         then Failure 500 MissingSheetId None
         else if \<not> isIsoDate (trim js q) then Failure 400 InvalidDateFormat None
         else Failure 403 NotAvailableYet None)"
    using GET_future by blast
  have 4: "today < trim js (cell (snd nrow) (indexOf header ''date'')) \<longrightarrow>
      addRow js today header nrow m = m"
    using addRow_future by blast
  have 5: "\<forall>k\<in>fst ` set (puzzlesByDate js today rows). isIsoDate k \<and> k \<le> today"
    using puzzlesByDate_keys by blast
  have 6: "GET1 js req = Puzzle1 d1 t1 dates1 cats1 \<longrightarrow>
      isIsoDate d1 \<and> d1 \<le> todayNz req \<and> (\<forall>a\<in>set dates1. a \<le> todayNz req)"
  proof
    assume "GET1 js req = Puzzle1 d1 t1 dates1 cats1"
    from GET1_Puzzle1 [OF this] obtain rws where d: "isIsoDate d1" "d1 \<le> todayNz req"
      and dt: "dates1 = rev (sort (map fst (puzzles1 js (todayNz req) rws)))"
      by blast
    have "\<forall>a\<in>set dates1. a \<le> todayNz req"
      using puzzles1_keys [of _ js "todayNz req" rws] by (simp add: dt)
    with d show "isIsoDate d1 \<and> d1 \<le> todayNz req \<and> (\<forall>a\<in>set dates1. a \<le> todayNz req)"
      by blast
  qed
  have 7: "dateQuery req = Some q \<and> todayNz req < q \<longrightarrow>
      GET1 js req =
        (if (case sheetsId req of None \<Rightarrow> True | Some sid \<Rightarrow> sid = [])
         then Failure1 500 MissingSheetId
         else Failure1 403 InvalidOrFutureDate)"
    using GET1_future by blast
  have 8: "cellOpt row (indexOf header ''date'') = Some date \<and> today < date \<longrightarrow>
      addRow1 js today header row m1 = m1"
    using addRow1_future by blast
  have 9: "\<forall>k\<in>fst ` set (puzzles1 js today rows). isIsoDate k \<and> k \<le> today"
    using puzzles1_keys by blast
  show ?thesis by (intro conjI) (fact 1 2 3 4 5 6 7 8 9)+
qed

text \<open>
  The theorem on the concrete sheet, which has a row dated one day after today: without a
  date the answer is the puzzle of the day before today, the latest available; the request
  for the future date is answered with 403; the future row does not change the map, whose
  only key is the earlier date.
\<close>

theorem never_a_future_puzzle_witness:
  "GET exampleBuiltins (exampleRequest None) =
     Puzzle ''2024-05-01'' ''2024-05-02'' [''2024-05-01'']
       [\<lparr>cref = 2, category = ''FRUIT'', level = 1, items = [''APPLE'', ''PEAR'', ''PLUM'', ''KIWI'']\<rparr>,
        \<lparr>cref = 1, category = ''COLOR'', level = 2, items = [''RED'', ''BLUE'', ''GREEN'', ''GOLD'']\<rparr>,
        \<lparr>cref = 5, category = ''METAL'', level = 3, items = [''IRON'', ''ZINC'', ''TIN'', ''LEAD'']\<rparr>,
        \<lparr>cref = 4, category = ''TOOL'', level = 4, items = [''SAW'', ''AXE'', ''HAMMER'', ''DRILL'']\<rparr>] \<and>
   todayNz (exampleRequest None) = ''2024-05-02'' \<and>
   isIsoDate ''2024-05-01'' \<and> ''2024-05-01'' \<le> todayNz (exampleRequest None) \<and>
   dateQuery (exampleRequest (Some ''2024-05-03'')) = Some ''2024-05-03'' \<and>
   todayNz (exampleRequest (Some ''2024-05-03'')) < trim exampleBuiltins ''2024-05-03'' \<and>
   GET exampleBuiltins (exampleRequest (Some ''2024-05-03'')) = Failure 403 NotAvailableYet None \<and>
   ''2024-05-02'' <
     trim exampleBuiltins (cell (snd (3, exampleSheet ! 3)) (indexOf (hd exampleSheet) ''date'')) \<and>
   addRow exampleBuiltins ''2024-05-02'' (hd exampleSheet) (3, exampleSheet ! 3) [] = [] \<and>
   fst ` set (puzzlesByDate exampleBuiltins ''2024-05-02'' exampleSheet) = {''2024-05-01''} \<and>
   GET1 exampleBuiltins (exampleRequest None) =
     Puzzle1 ''2024-05-02'' ''2024-05-02'' [''2024-05-01''] None \<and>
   todayNz (exampleRequest (Some ''2024-05-03'')) < ''2024-05-03'' \<and>
   GET1 exampleBuiltins (exampleRequest (Some ''2024-05-03'')) = Failure1 403 InvalidOrFutureDate"
proof -
  let ?cats = "[\<lparr>cref = 2, category = ''FRUIT'', level = 1, items = [''APPLE'', ''PEAR'', ''PLUM'', ''KIWI'']\<rparr>,
        \<lparr>cref = 1, category = ''COLOR'', level = 2, items = [''RED'', ''BLUE'', ''GREEN'', ''GOLD'']\<rparr>,
        \<lparr>cref = 5, category = ''METAL'', level = 3, items = [''IRON'', ''ZINC'', ''TIN'', ''LEAD'']\<rparr>,
        \<lparr>cref = 4, category = ''TOOL'', level = 4, items = [''SAW'', ''AXE'', ''HAMMER'', ''DRILL'']\<rparr>]"
  have g: "GET exampleBuiltins (exampleRequest None) =
     Puzzle ''2024-05-01'' ''2024-05-02'' [''2024-05-01''] ?cats"
    by code_simp
  have t: "todayNz (exampleRequest None) = ''2024-05-02''" by (simp add: exampleRequest_def)
  have q: "dateQuery (exampleRequest (Some ''2024-05-03'')) = Some ''2024-05-03''"
    by (simp add: exampleRequest_def)
  have f: "todayNz (exampleRequest (Some ''2024-05-03'')) < trim exampleBuiltins ''2024-05-03''"
    by code_simp
  have f1: "todayNz (exampleRequest (Some ''2024-05-03'')) < ''2024-05-03''"
    by code_simp
  have s: "\<not> (case sheetsId (exampleRequest (Some ''2024-05-03'')) of
                None \<Rightarrow> True | Some sid \<Rightarrow> sid = [])"
    by (simp add: exampleRequest_def)
  have i: "isIsoDate (trim exampleBuiltins ''2024-05-03'')" by code_simp
  have r: "''2024-05-02'' <
     trim exampleBuiltins (cell (snd (3, exampleSheet ! 3)) (indexOf (hd exampleSheet) ''date''))"
    by code_simp
  have k: "fst ` set (puzzlesByDate exampleBuiltins ''2024-05-02'' exampleSheet) = {''2024-05-01''}"
    by code_simp
  have g1: "GET1 exampleBuiltins (exampleRequest None) =
     Puzzle1 ''2024-05-02'' ''2024-05-02'' [''2024-05-01''] None"
    by code_simp
  note A = never_a_future_puzzle [where js = exampleBuiltins and req = "exampleRequest None"
      and d = "''2024-05-01''" and t = "''2024-05-02''" and dates = "[''2024-05-01'']"
      and cats = ?cats]
  note B = never_a_future_puzzle [where js = exampleBuiltins
      and req = "exampleRequest (Some ''2024-05-03'')" and q = "''2024-05-03''"
      and today = "''2024-05-02''" and nrow = "(3, exampleSheet ! 3)"
      and header = "hd exampleSheet" and m = "[]"]
  from A g have a1: "isIsoDate ''2024-05-01''"
    and a2: "''2024-05-01'' \<le> todayNz (exampleRequest None)"
    by blast+
  from B q f s i have b1:
    "GET exampleBuiltins (exampleRequest (Some ''2024-05-03'')) = Failure 403 NotAvailableYet None"
    by simp
  from B r have b2:
    "addRow exampleBuiltins ''2024-05-02'' (hd exampleSheet) (3, exampleSheet ! 3) [] = []"
    by blast
  from B q f1 s have b3:
    "GET1 exampleBuiltins (exampleRequest (Some ''2024-05-03'')) = Failure1 403 InvalidOrFutureDate"
    by simp
  show ?thesis
    by (intro conjI) (fact g t a1 a2 q f b1 r b2 k g1 f1 b3)+
qed

end
